theory Spec2Isabelle
  imports Complex_Main
begin

section \<open>Python values\<close>

text \<open>
  The values that flow through \<^verbatim>\<open>telesync/core.py\<close>. A \<^verbatim>\<open>float\<close> is either
  finite (its payload is the number it denotes) or one of the three non-finite values.
  A \<^verbatim>\<open>dict\<close> is an association list in insertion order; its keys are strings or
  integers. \<^verbatim>\<open>VData fields size data\<close> is an instance of the class \<^verbatim>\<open>Data\<close>.
  \<^verbatim>\<open>VDumpable c r\<close> is an instance of a class named \<^verbatim>\<open>c\<close> that has a callable
  attribute \<^verbatim>\<open>dump\<close> returning \<^verbatim>\<open>r\<close>; \<^verbatim>\<open>VOpaque c\<close> is an instance of a class
  named \<^verbatim>\<open>c\<close> that has none (a set, a bytes object, a function).
\<close>

datatype pyfloat = Finite real | NaN | PosInf | NegInf

datatype pykey = KStr string | KInt int

datatype pyval =
    VNone
  | VBool bool
  | VInt int
  | VFloat pyfloat
  | VStr string
  | VList "pyval list"
  | VTuple "pyval list"
  | VDict "(pykey \<times> pyval) list"
  | VData pyval int pyval
  | VDumpable string pyval
  | VOpaque string

text \<open>
  An exception is its class and its argument. \<^verbatim>\<open>KeyError\<close> carries a key: the missing
  key when \<^verbatim>\<open>del d[k]\<close> raises it, a message when \<^verbatim>\<open>_guard_key\<close> does.
\<close>

datatype error = ValueError string | KeyError pykey | TypeError string

subsection \<open>Decimal text of integers: \<^verbatim>\<open>str(int)\<close>\<close>

definition digit_char :: "nat \<Rightarrow> char" where
  "digit_char d = ''0123456789'' ! d"

function str_nat :: "nat \<Rightarrow> string" where
  "str_nat n = (if n < 10 then [digit_char n] else str_nat (n div 10) @ [digit_char (n mod 10)])"
  by pat_completeness auto
termination
  by (relation "measure id") auto

declare str_nat.simps [simp del]

definition str_int :: "int \<Rightarrow> string" where
  "str_int i = (if i < 0 then CHR ''-'' # str_nat (nat (- i)) else str_nat (nat i))"

subsection \<open>Dictionaries\<close>

type_synonym pydict = "(pykey \<times> pyval) list"

text \<open>\<^verbatim>\<open>k in d\<close>.\<close>

definition dict_has :: "pydict \<Rightarrow> pykey \<Rightarrow> bool" where
  "dict_has d k = (k \<in> set (map fst d))"

text \<open>
  \<^verbatim>\<open>d[k] = v\<close>: an existing key keeps its position and takes the new value, a new
  key goes to the end.
\<close>

fun dict_set :: "pydict \<Rightarrow> pykey \<Rightarrow> pyval \<Rightarrow> pydict" where
  "dict_set [] k v = [(k, v)]"
| "dict_set ((k', v') # d) k v = (if k' = k then (k, v) # d else (k', v') # dict_set d k v)"

text \<open>\<^verbatim>\<open>del d[k]\<close>: raises \<^verbatim>\<open>KeyError\<close> when the key is absent.\<close>

definition dict_del :: "pydict \<Rightarrow> pykey \<Rightarrow> error + pydict" where
  "dict_del d k =
     (if dict_has d k then Inr (filter (\<lambda>kv. fst kv \<noteq> k) d) else Inl (KeyError k))"

text \<open>A value is well formed when the keys of every dictionary in it are distinct.\<close>

fun wf :: "pyval \<Rightarrow> bool" where
  "wf (VList xs) = list_all wf xs"
| "wf (VTuple xs) = list_all wf xs"
| "wf (VDict kvs) = (distinct (map fst kvs) \<and> list_all (\<lambda>kv. wf (snd kv)) kvs)"
| "wf (VData f n d) = (wf f \<and> wf d)"
| "wf (VDumpable c r) = wf r"
| "wf _ = True"

section \<open>Validation\<close>

definition key_sep :: string where
  "key_sep = '' ''"

fun is_int :: "pyval \<Rightarrow> bool" where
  "is_int (VInt i) = True"
| "is_int (VBool b) = True"
| "is_int _ = False"

fun is_str :: "pyval \<Rightarrow> bool" where
  "is_str (VStr s) = True"
| "is_str _ = False"

fun is_list :: "pyval \<Rightarrow> bool" where
  "is_list (VList xs) = True"
| "is_list (VTuple xs) = True"
| "is_list _ = False"

fun is_primitive :: "pyval \<Rightarrow> bool" where
  "is_primitive VNone = True"
| "is_primitive (VBool b) = True"
| "is_primitive (VStr s) = True"
| "is_primitive (VInt i) = True"
| "is_primitive (VFloat f) = True"
| "is_primitive _ = False"

definition guard_primitive :: "pyval \<Rightarrow> error + unit" where
  "guard_primitive x =
     (if \<not> is_primitive x then Inl (ValueError ''value must be a primitive'') else Inr ())"

fun are_primitives :: "pyval \<Rightarrow> bool" where
  "are_primitives VNone = True"
| "are_primitives (VList xs) = list_all is_primitive xs"
| "are_primitives (VTuple xs) = list_all is_primitive xs"
| "are_primitives _ = False"

definition guard_primitive_list :: "pyval \<Rightarrow> error + unit" where
  "guard_primitive_list xs =
     (if \<not> are_primitives xs then Inl (ValueError ''value must be a primitive list or tuple'')
      else Inr ())"

fun guard_key :: "pyval \<Rightarrow> error + unit" where
  "guard_key (VStr key) =
     (if CHR '' '' \<in> set key then Inl (KeyError (KStr ''keys cannot contain spaces'')) else Inr ())"
| "guard_key key =
     (if \<not> is_int key then Inl (KeyError (KStr ''invalid key type: want str or int'')) else Inr ())"

section \<open>Data descriptors and the dump routine\<close>

text \<open>
  Truth value testing, as \<^verbatim>\<open>if d:\<close> does it. An instance of \<^verbatim>\<open>Data\<close> defines neither
  \<^verbatim>\<open>__bool__\<close> nor \<^verbatim>\<open>__len__\<close> and is true; the other objects are taken to be true as
  well.
\<close>

fun truthy :: "pyval \<Rightarrow> bool" where
  "truthy VNone = False"
| "truthy (VBool b) = b"
| "truthy (VInt i) = (i \<noteq> 0)"
| "truthy (VFloat (Finite x)) = (x \<noteq> 0)"
| "truthy (VFloat f) = True"
| "truthy (VStr s) = (s \<noteq> [])"
| "truthy (VList xs) = (xs \<noteq> [])"
| "truthy (VTuple xs) = (xs \<noteq> [])"
| "truthy (VDict kvs) = (kvs \<noteq> [])"
| "truthy _ = True"

fun is_dict :: "pyval \<Rightarrow> bool" where
  "is_dict (VDict kvs) = True"
| "is_dict _ = False"

fun is_Data :: "pyval \<Rightarrow> bool" where
  "is_Data (VData f n d) = True"
| "is_Data _ = False"

text \<open>\<^verbatim>\<open>Data.dump\<close>, for the instance with fields \<open>f\<close>, size \<open>n\<close> and data \<open>d\<close>.\<close>

definition Data_dump :: "pyval \<Rightarrow> int \<Rightarrow> pyval \<Rightarrow> pydict" where
  "Data_dump f n d =
     (if truthy d then
        (if is_dict d then [(KStr ''m'', VDict [(KStr ''f'', f), (KStr ''d'', d)])]
         else if n < 0 then [(KStr ''c'', VDict [(KStr ''f'', f), (KStr ''d'', d)])]
         else [(KStr ''f'', VDict [(KStr ''f'', f), (KStr ''d'', d)])])
      else
        (if n = 0 then [(KStr ''m'', VDict [(KStr ''f'', f)])]
         else if n < 0 then [(KStr ''c'', VDict [(KStr ''f'', f), (KStr ''n'', VInt (- n))])]
         else [(KStr ''f'', VDict [(KStr ''f'', f), (KStr ''n'', VInt n)])]))"

fun can_dump :: "pyval \<Rightarrow> bool" where
  "can_dump (VData f n d) = True"
| "can_dump (VDumpable c r) = True"
| "can_dump _ = False"

fun dump :: "pyval \<Rightarrow> pyval" where
  "dump (VList xs) = VList (map dump xs)"
| "dump (VTuple xs) = VList (map dump xs)"
| "dump (VDict kvs) = VDict (map (\<lambda>(k, v). (k, dump v)) kvs)"
| "dump (VData f n d) = VDict (Data_dump f n d)"
| "dump (VDumpable c r) = r"
| "dump x = x"

section \<open>References\<close>

text \<open>
  Pages are objects with identity: a page is named by a handle and its state lives in a heap.
  A \<^verbatim>\<open>Ref\<close> holds the handle of its page and its path. The values handed to a page are
  immutable here: what a caller does to a dictionary after passing it to \<^verbatim>\<open>add\<close> is not
  modelled.
\<close>

record PageBase =
  url :: string
  changes :: "pyval list"

type_synonym heap = "nat \<Rightarrow> PageBase"

record Ref =
  PAGE :: nat
  KEY :: string

text \<open>
  \<^verbatim>\<open>str(k)\<close> for the keys that pass \<^verbatim>\<open>_guard_key\<close>: strings, integers and booleans. No
  other value reaches it.
\<close>

fun py_str :: "pyval \<Rightarrow> string" where
  "py_str (VStr s) = s"
| "py_str (VInt i) = str_int i"
| "py_str (VBool b) = (if b then ''True'' else ''False'')"
| "py_str _ = []"

definition set_op :: "Ref \<Rightarrow> pyval \<Rightarrow> pyval \<Rightarrow> error + pyval" where
  "set_op r k v =
     (case guard_key k of
        Inl e \<Rightarrow> Inl e
      | Inr u \<Rightarrow>
          (let k' = KEY r @ key_sep @ py_str k in
           case v of
             VData f n d \<Rightarrow> Inr (VDict (dict_set (Data_dump f n d) (KStr ''k'') (VStr k')))
           | _ \<Rightarrow> Inr (VDict [(KStr ''k'', VStr k'), (KStr ''v'', v)])))"

definition PageBase_track :: "PageBase \<Rightarrow> pyval \<Rightarrow> PageBase" where
  "PageBase_track self opn = self\<lparr>changes := changes self @ [opn]\<rparr>"

definition Ref_getattr :: "Ref \<Rightarrow> string \<Rightarrow> error + Ref" where
  "Ref_getattr self key =
     (case guard_key (VStr key) of
        Inl e \<Rightarrow> Inl e
      | Inr u \<Rightarrow> Inr \<lparr>PAGE = PAGE self, KEY = KEY self @ key_sep @ key\<rparr>)"

definition Ref_getitem :: "Ref \<Rightarrow> pyval \<Rightarrow> error + Ref" where
  "Ref_getitem self key =
     (case guard_key key of
        Inl e \<Rightarrow> Inl e
      | Inr u \<Rightarrow> Inr \<lparr>PAGE = PAGE self, KEY = KEY self @ key_sep @ py_str key\<rparr>)"

text \<open>
  The two assignments. Each returns its outcome together with the heap it leaves, so that an
  exception raised after a change to the heap would show.
\<close>

definition Ref_setattr :: "Ref \<Rightarrow> string \<Rightarrow> pyval \<Rightarrow> heap \<Rightarrow> (error + unit) \<times> heap" where
  "Ref_setattr self key val h =
     (if is_Data val then (Inl (ValueError ''Data instances cannot be used in assignments.''), h)
      else case set_op self (VStr key) (dump val) of
             Inl e \<Rightarrow> (Inl e, h)
           | Inr opn \<Rightarrow> (Inr (), h(PAGE self := PageBase_track (h (PAGE self)) opn)))"

definition Ref_setitem :: "Ref \<Rightarrow> pyval \<Rightarrow> pyval \<Rightarrow> heap \<Rightarrow> (error + unit) \<times> heap" where
  "Ref_setitem self key val h =
     (if is_Data val then (Inl (ValueError ''Data instances cannot be used in assignments.''), h)
      else case set_op self key (dump val) of
             Inl e \<Rightarrow> (Inl e, h)
           | Inr opn \<Rightarrow> (Inr (), h(PAGE self := PageBase_track (h (PAGE self)) opn)))"

section \<open>JSON\<close>

text \<open>
  \<^verbatim>\<open>marshal\<close> is \<^verbatim>\<open>json.dumps(d, allow_nan=False, separators=(',', ':'))\<close> and
  \<^verbatim>\<open>unmarshal\<close> is \<^verbatim>\<open>json.loads\<close>. A JSON text is represented by the document it
  denotes: the encoder's conversion of Python values to JSON values and the decoder's
  conversion back are modelled, the character level of the standard library is not.
\<close>

datatype json =
    JNull
  | JBool bool
  | JInt int
  | JReal real
  | JStr string
  | JArr "json list"
  | JObj "(string \<times> json) list"

text \<open>The first exception of a sequence of computations wins.\<close>

fun sequence :: "(error + 'a) list \<Rightarrow> error + 'a list" where
  "sequence [] = Inr []"
| "sequence (Inl e # rs) = Inl e"
| "sequence (Inr x # rs) = (case sequence rs of Inl e \<Rightarrow> Inl e | Inr xs \<Rightarrow> Inr (x # xs))"

text \<open>The encoder writes a dictionary key that is an integer as its decimal text.\<close>

fun key_text :: "pykey \<Rightarrow> string" where
  "key_text (KStr s) = s"
| "key_text (KInt i) = str_int i"

definition not_serializable :: "string \<Rightarrow> error" where
  "not_serializable c = TypeError (''Object of type '' @ c @ '' is not JSON serializable'')"

fun marshal :: "pyval \<Rightarrow> error + json" where
  "marshal VNone = Inr JNull"
| "marshal (VBool b) = Inr (JBool b)"
| "marshal (VInt i) = Inr (JInt i)"
| "marshal (VFloat (Finite x)) = Inr (JReal x)"
| "marshal (VFloat f) = Inl (ValueError ''Out of range float values are not JSON compliant'')"
| "marshal (VStr s) = Inr (JStr s)"
| "marshal (VList xs) = map_sum id JArr (sequence (map marshal xs))"
| "marshal (VTuple xs) = map_sum id JArr (sequence (map marshal xs))"
| "marshal (VDict kvs) =
     map_sum id JObj (sequence (map (\<lambda>(k, v). map_sum id (Pair (key_text k)) (marshal v)) kvs))"
| "marshal (VData f n d) = Inl (not_serializable ''Data'')"
| "marshal (VDumpable c r) = Inl (not_serializable c)"
| "marshal (VOpaque c) = Inl (not_serializable c)"

text \<open>
  The decoder builds a dictionary by successive assignment, so the last of several equal
  keys of an object wins.
\<close>

definition dict_of :: "(pykey \<times> pyval) list \<Rightarrow> pydict" where
  "dict_of kvs = foldl (\<lambda>d (k, v). dict_set d k v) [] kvs"

fun unmarshal :: "json \<Rightarrow> pyval" where
  "unmarshal JNull = VNone"
| "unmarshal (JBool b) = VBool b"
| "unmarshal (JInt i) = VInt i"
| "unmarshal (JReal x) = VFloat (Finite x)"
| "unmarshal (JStr s) = VStr s"
| "unmarshal (JArr js) = VList (map unmarshal js)"
| "unmarshal (JObj kjs) = VDict (dict_of (map (\<lambda>(k, j). (KStr k, unmarshal j)) kjs))"

section \<open>Pages\<close>

text \<open>The first loop of \<^verbatim>\<open>add\<close>: collect the properties that hold a \<^verbatim>\<open>Data\<close>.\<close>

fun collect :: "pydict \<Rightarrow> (pykey \<times> nat) list \<Rightarrow> pyval list \<Rightarrow> (pykey \<times> nat) list \<times> pyval list" where
  "collect [] data bufs = (data, bufs)"
| "collect ((k, v) # kvs) data bufs =
     (if is_Data v then collect kvs (data @ [(k, length bufs)]) (bufs @ [dump v])
      else collect kvs data bufs)"

text \<open>The second loop: \<^verbatim>\<open>del props[k]; props[f'~{k}'] = v\<close>.\<close>

fun displace :: "(pykey \<times> nat) list \<Rightarrow> pydict \<Rightarrow> error + pydict" where
  "displace [] props = Inr props"
| "displace ((k, v) # data) props =
     (case dict_del props k of
        Inl e \<Rightarrow> Inl e
      | Inr props' \<Rightarrow> displace data (dict_set props' (KStr (''~'' @ key_text k)) (VInt (int v))))"

definition PageBase_add :: "nat \<Rightarrow> pyval \<Rightarrow> pyval \<Rightarrow> heap \<Rightarrow> (error + Ref) \<times> heap" where
  "PageBase_add self key the_card h =
     (if key = VNone then (Inl (ValueError ''card must have a key''), h)
      else case key of
        VStr ks \<Rightarrow>
          (case (if is_dict the_card then the_card else if can_dump the_card then dump the_card else VNone) of
             VDict props \<Rightarrow>
               (case collect props [] [] of (data, bufs) \<Rightarrow>
                  (case displace data props of
                     Inl e \<Rightarrow> (Inl e, h)
                   | Inr props' \<Rightarrow>
                       (Inr \<lparr>PAGE = self, KEY = ks\<rparr>,
                        h(self := PageBase_track (h self)
                          (if length bufs > 0
                           then VDict [(KStr ''k'', key), (KStr ''d'', VDict props'), (KStr ''b'', VList bufs)]
                           else VDict [(KStr ''k'', key), (KStr ''d'', VDict props')])))))
           | _ \<Rightarrow> (Inl (ValueError ''card must be dict or implement .dump() -> dict''), h))
      | _ \<Rightarrow> (Inl (ValueError ''key must be str''), h))"

text \<open>\<^verbatim>\<open>_diff\<close> returns \<^verbatim>\<open>None\<close> or the marshaled diff.\<close>

definition PageBase_diff :: "nat \<Rightarrow> heap \<Rightarrow> (error + json option) \<times> heap" where
  "PageBase_diff self h =
     (if length (changes (h self)) = 0 then (Inr None, h)
      else case marshal (VDict [(KStr ''d'', VList (changes (h self)))]) of
             Inl e \<Rightarrow> (Inl e, h)
           | Inr d \<Rightarrow> (Inr (Some d), h(self := (h self)\<lparr>changes := []\<rparr>)))"

definition PageBase_drop :: "nat \<Rightarrow> heap \<Rightarrow> (error + unit) \<times> heap" where
  "PageBase_drop self h = (Inr (), h(self := PageBase_track (h self) (VDict [])))"

definition PageBase_setitem :: "nat \<Rightarrow> pyval \<Rightarrow> pyval \<Rightarrow> heap \<Rightarrow> (error + unit) \<times> heap" where
  "PageBase_setitem self key the_card h = map_prod (map_sum id (\<lambda>r. ())) id (PageBase_add self key the_card h)"

definition PageBase_getitem :: "nat \<Rightarrow> pyval \<Rightarrow> error + Ref" where
  "PageBase_getitem self key =
     (case key of
        VStr ks \<Rightarrow> Inr \<lparr>PAGE = self, KEY = ks\<rparr>
      | _ \<Rightarrow> Inl (ValueError ''key must be str''))"

definition PageBase_delitem :: "nat \<Rightarrow> pyval \<Rightarrow> heap \<Rightarrow> (error + unit) \<times> heap" where
  "PageBase_delitem self key h =
     (Inr (), h(self := PageBase_track (h self) (VDict [(KStr ''k'', key)])))"

section \<open>Programs of mutations\<close>

text \<open>
  The calls that change a page: \<^verbatim>\<open>page[key] = card\<close>, the two assignments through a
  \<^verbatim>\<open>Ref\<close>, \<^verbatim>\<open>del page[key]\<close> and \<^verbatim>\<open>page.drop()\<close>. A program runs them one after
  the other and stops at the first exception.
\<close>

datatype mutation =
    Add nat pyval pyval
  | SetAttr Ref string pyval
  | SetItem Ref pyval pyval
  | Delete nat pyval
  | Drop nat

fun target :: "mutation \<Rightarrow> nat" where
  "target (Add p key c) = p"
| "target (SetAttr r key v) = PAGE r"
| "target (SetItem r key v) = PAGE r"
| "target (Delete p key) = p"
| "target (Drop p) = p"

fun mutate :: "mutation \<Rightarrow> heap \<Rightarrow> (error + unit) \<times> heap" where
  "mutate (Add p key c) h = PageBase_setitem p key c h"
| "mutate (SetAttr r key v) h = Ref_setattr r key v h"
| "mutate (SetItem r key v) h = Ref_setitem r key v h"
| "mutate (Delete p key) h = PageBase_delitem p key h"
| "mutate (Drop p) h = PageBase_drop p h"

fun run :: "mutation list \<Rightarrow> heap \<Rightarrow> error + heap" where
  "run [] h = Inr h"
| "run (m # ms) h = (case mutate m h of (Inl e, h') \<Rightarrow> Inl e | (Inr u, h') \<Rightarrow> run ms h')"

section \<open>Values that JSON carries without change\<close>

text \<open>
  \<^verbatim>\<open>None\<close>, booleans, integers, finite floats, strings, lists of such values and
  dictionaries from strings to such values.
\<close>

fun plain_json :: "pyval \<Rightarrow> bool" where
  "plain_json VNone = True"
| "plain_json (VBool b) = True"
| "plain_json (VInt i) = True"
| "plain_json (VFloat (Finite x)) = True"
| "plain_json (VStr s) = True"
| "plain_json (VList xs) = list_all plain_json xs"
| "plain_json (VDict kvs) = list_all (\<lambda>kv. (case fst kv of KStr s \<Rightarrow> True | KInt i \<Rightarrow> False) \<and> plain_json (snd kv)) kvs"
| "plain_json _ = False"

section \<open>The encoding of a data descriptor\<close>

text \<open>
  Claim C5. A \<^verbatim>\<open>Data\<close> descriptor with fields \<open>f\<close> and no initial data (the data is
  \<^verbatim>\<open>None\<close>, or any other false value) is encoded by the sign of its size: size zero gives
  the map buffer \<^verbatim>\<open>{"m": {"f": f}}\<close>, a positive size gives the fixed buffer
  \<^verbatim>\<open>{"f": {"f": f, "n": size}}\<close>, and a negative size gives the circular buffer
  \<^verbatim>\<open>{"c": {"f": f, "n": |size|}}\<close>.
\<close>

theorem Data_dump_by_sign_of_size:
  assumes "\<not> truthy d"
  shows "(n = 0 \<longrightarrow> dump (VData f n d) = VDict [(KStr ''m'', VDict [(KStr ''f'', f)])])
       \<and> (n > 0 \<longrightarrow> dump (VData f n d) =
             VDict [(KStr ''f'', VDict [(KStr ''f'', f), (KStr ''n'', VInt n)])])
       \<and> (n < 0 \<longrightarrow> dump (VData f n d) =
             VDict [(KStr ''c'', VDict [(KStr ''f'', f), (KStr ''n'', VInt \<bar>n\<bar>)])])"
  using assms by (simp add: Data_dump_def)

theorem Data_dump_by_sign_of_size_witness:
  "\<not> truthy VNone
   \<and> dump (VData (VList [VStr ''a'', VStr ''b'']) 0 VNone) =
       VDict [(KStr ''m'', VDict [(KStr ''f'', VList [VStr ''a'', VStr ''b''])])]
   \<and> dump (VData (VList [VStr ''a'', VStr ''b'']) 3 VNone) =
       VDict [(KStr ''f'', VDict [(KStr ''f'', VList [VStr ''a'', VStr ''b'']), (KStr ''n'', VInt 3)])]
   \<and> dump (VData (VList [VStr ''a'', VStr ''b'']) (- 5) VNone) =
       VDict [(KStr ''c'', VDict [(KStr ''f'', VList [VStr ''a'', VStr ''b'']), (KStr ''n'', VInt 5)])]"
proof -
  have t: "\<not> truthy VNone" by simp
  show ?thesis
    using t
      Data_dump_by_sign_of_size [OF t, of 0 "VList [VStr ''a'', VStr ''b'']"]
      Data_dump_by_sign_of_size [OF t, of 3 "VList [VStr ''a'', VStr ''b'']"]
      Data_dump_by_sign_of_size [OF t, of "- 5" "VList [VStr ''a'', VStr ''b'']"]
    by simp
qed

section \<open>Assignment through a reference\<close>

text \<open>
  Claim C6. For every \<^verbatim>\<open>Ref\<close> and every value that is itself a \<^verbatim>\<open>Data\<close> descriptor,
  the assignment of that value through the \<^verbatim>\<open>Ref\<close>, in attribute style or in index style,
  raises the error of invalid assignments (a \<^verbatim>\<open>ValueError\<close> saying that Data instances
  cannot be used in assignments) and leaves the heap, and so the buffer of the page, as it
  was. This holds for every key, also for one that the key guard would reject.
\<close>

theorem Ref_assign_Data_rejected:
  "Ref_setattr r key (VData f n d) h =
     (Inl (ValueError ''Data instances cannot be used in assignments.''), h)
   \<and> Ref_setitem r k (VData f n d) h =
     (Inl (ValueError ''Data instances cannot be used in assignments.''), h)"
  by (simp add: Ref_setattr_def Ref_setitem_def)

theorem Ref_assign_Data_rejected_witness:
  "Ref_setattr \<lparr>PAGE = 0, KEY = ''c''\<rparr> ''buf'' (VData (VList [VStr ''x'']) 10 VNone)
       (\<lambda>p::nat. \<lparr>url = ''/demo'', changes = []\<rparr>) =
     (Inl (ValueError ''Data instances cannot be used in assignments.''),
      (\<lambda>p::nat. \<lparr>url = ''/demo'', changes = []\<rparr>))
   \<and> Ref_setitem \<lparr>PAGE = 0, KEY = ''c''\<rparr> (VStr ''buf'') (VData (VList [VStr ''x'']) 10 VNone)
       (\<lambda>p::nat. \<lparr>url = ''/demo'', changes = []\<rparr>) =
     (Inl (ValueError ''Data instances cannot be used in assignments.''),
      (\<lambda>p::nat. \<lparr>url = ''/demo'', changes = []\<rparr>))"
  using Ref_assign_Data_rejected
    [of "\<lparr>PAGE = 0, KEY = ''c''\<rparr>" "''buf''" "VList [VStr ''x'']" 10 VNone
        "\<lambda>p::nat. \<lparr>url = ''/demo'', changes = []\<rparr>" "VStr ''buf''"]
  by simp

lemma dump_not_Data: "\<not> can_dump v \<Longrightarrow> \<not> is_Data (dump v)"
  by (cases v) simp_all

lemma set_op_plain:
  "guard_key k = Inr () \<Longrightarrow> \<not> is_Data v \<Longrightarrow>
   set_op r k v = Inr (VDict [(KStr ''k'', VStr (KEY r @ key_sep @ py_str k)), (KStr ''v'', v)])"
  by (cases v) (simp_all add: set_op_def)

lemma set_op_guard_fails:
  "guard_key k = Inl e \<Longrightarrow> set_op r k v = Inl e"
  by (simp add: set_op_def)

lemma Ref_setitem_plain:
  assumes "guard_key k = Inr ()" "\<not> is_Data v" "\<not> is_Data (dump v)"
  shows "Ref_setitem r k v h =
     (Inr (), h(PAGE r := PageBase_track (h (PAGE r))
        (VDict [(KStr ''k'', VStr (KEY r @ key_sep @ py_str k)), (KStr ''v'', dump v)])))"
  using assms by (simp add: Ref_setitem_def set_op_plain)

lemma Ref_setattr_plain:
  assumes "guard_key (VStr key) = Inr ()" "\<not> is_Data v" "\<not> is_Data (dump v)"
  shows "Ref_setattr r key v h =
     (Inr (), h(PAGE r := PageBase_track (h (PAGE r))
        (VDict [(KStr ''k'', VStr (KEY r @ key_sep @ key)), (KStr ''v'', dump v)])))"
  using assms by (simp add: Ref_setattr_def set_op_plain)

lemma can_dump_if_Data: "is_Data v \<Longrightarrow> can_dump v"
  by (cases v) simp_all

text \<open>
  Claim C1, as the code has it. An assignment through a \<^verbatim>\<open>Ref\<close> never calls
  \<^verbatim>\<open>_guard_primitive\<close> or \<^verbatim>\<open>_guard_primitive_list\<close>: its only checks are the test for a
  \<^verbatim>\<open>Data\<close> instance and the key guard. For every value \<open>v\<close> that does not expose
  \<^verbatim>\<open>dump\<close> (so for every value that is neither a primitive, nor a container of primitives,
  nor dumpable) and every key that passes the key guard, the assignment raises nothing and
  appends exactly one Set operation \<^verbatim>\<open>{k: path, v: _dump(v)}\<close> to the buffer of the page of
  the \<^verbatim>\<open>Ref\<close>.
\<close>

theorem Ref_assign_not_validated:
  assumes "\<not> can_dump v" and "guard_key k = Inr ()" and "guard_key (VStr key) = Inr ()"
  shows "Ref_setitem r k v h =
           (Inr (), h(PAGE r := PageBase_track (h (PAGE r))
              (VDict [(KStr ''k'', VStr (KEY r @ key_sep @ py_str k)), (KStr ''v'', dump v)])))
       \<and> Ref_setattr r key v h =
           (Inr (), h(PAGE r := PageBase_track (h (PAGE r))
              (VDict [(KStr ''k'', VStr (KEY r @ key_sep @ key)), (KStr ''v'', dump v)])))"
proof -
  from assms(1) have "\<not> is_Data v" using can_dump_if_Data by blast
  moreover from assms(1) have "\<not> is_Data (dump v)" by (rule dump_not_Data)
  ultimately show ?thesis
    using assms(2,3) by (simp add: Ref_setitem_plain Ref_setattr_plain)
qed

theorem Ref_assign_not_validated_witness:
  "\<not> can_dump (VOpaque ''set'') \<and> guard_key (VInt 0) = Inr () \<and> guard_key (VStr ''x'') = Inr ()
   \<and> Ref_setitem \<lparr>PAGE = 0, KEY = ''c''\<rparr> (VInt 0) (VOpaque ''set'') (\<lambda>p::nat. \<lparr>url = ''/demo'', changes = []\<rparr>) =
       (Inr (), (\<lambda>p::nat. \<lparr>url = ''/demo'', changes = []\<rparr>)(0 := \<lparr>url = ''/demo'', changes =
          [VDict [(KStr ''k'', VStr ''c 0''), (KStr ''v'', VOpaque ''set'')]]\<rparr>))
   \<and> Ref_setattr \<lparr>PAGE = 0, KEY = ''c''\<rparr> ''x'' (VOpaque ''set'') (\<lambda>p::nat. \<lparr>url = ''/demo'', changes = []\<rparr>) =
       (Inr (), (\<lambda>p::nat. \<lparr>url = ''/demo'', changes = []\<rparr>)(0 := \<lparr>url = ''/demo'', changes =
          [VDict [(KStr ''k'', VStr ''c x''), (KStr ''v'', VOpaque ''set'')]]\<rparr>))"
proof -
  have a: "\<not> can_dump (VOpaque ''set'')" by simp
  have b: "guard_key (VInt 0) = Inr ()" by simp
  have c: "guard_key (VStr ''x'') = Inr ()" by simp
  have s: "str_int 0 = ''0''" by (simp add: str_int_def str_nat.simps digit_char_def)
  show ?thesis
    using a b c Ref_assign_not_validated [OF a b c, of "\<lparr>PAGE = 0, KEY = ''c''\<rparr>" "\<lambda>p::nat. \<lparr>url = ''/demo'', changes = []\<rparr>"]
    by (simp add: PageBase_track_def key_sep_def s)
qed

text \<open>
  The claim C1 as stated fails. A set is no primitive, no container of primitives and has no
  \<^verbatim>\<open>dump\<close>; \<^verbatim>\<open>_guard_primitive\<close> would reject it, yet assigning it raises nothing and
  the Set operation that holds it is in the buffer. The same happens for a list of tuples.
\<close>

theorem Ref_assign_invalid_value_counterexample:
  "\<not> is_primitive (VOpaque ''set'') \<and> \<not> are_primitives (VOpaque ''set'') \<and> \<not> can_dump (VOpaque ''set'')
   \<and> guard_primitive (VOpaque ''set'') = Inl (ValueError ''value must be a primitive'')
   \<and> fst (Ref_setattr \<lparr>PAGE = 0, KEY = ''c''\<rparr> ''x'' (VOpaque ''set'') (\<lambda>p::nat. \<lparr>url = ''/demo'', changes = []\<rparr>)) = Inr ()
   \<and> changes (snd (Ref_setattr \<lparr>PAGE = 0, KEY = ''c''\<rparr> ''x'' (VOpaque ''set'') (\<lambda>p::nat. \<lparr>url = ''/demo'', changes = []\<rparr>)) 0) =
       [VDict [(KStr ''k'', VStr ''c x''), (KStr ''v'', VOpaque ''set'')]]
   \<and> \<not> is_primitive (VList [VTuple [VStr ''g'', VInt 1, VInt 2]])
   \<and> \<not> are_primitives (VList [VTuple [VStr ''g'', VInt 1, VInt 2]])
   \<and> \<not> can_dump (VList [VTuple [VStr ''g'', VInt 1, VInt 2]])
   \<and> fst (Ref_setattr \<lparr>PAGE = 0, KEY = ''example''\<rparr> ''data'' (VList [VTuple [VStr ''g'', VInt 1, VInt 2]])
            (\<lambda>p::nat. \<lparr>url = ''/demo'', changes = []\<rparr>)) = Inr ()
   \<and> changes (snd (Ref_setattr \<lparr>PAGE = 0, KEY = ''example''\<rparr> ''data'' (VList [VTuple [VStr ''g'', VInt 1, VInt 2]])
            (\<lambda>p::nat. \<lparr>url = ''/demo'', changes = []\<rparr>)) 0) =
       [VDict [(KStr ''k'', VStr ''example data''), (KStr ''v'', VList [VList [VStr ''g'', VInt 1, VInt 2]])]]"
  by (simp add: Ref_setattr_def set_op_def guard_primitive_def PageBase_track_def key_sep_def)

section \<open>The key guard\<close>

lemma guard_key_space:
  "CHR '' '' \<in> set s \<Longrightarrow> guard_key (VStr s) = Inl (KeyError (KStr ''keys cannot contain spaces''))"
  by simp

text \<open>
  Claim C9, as the code has it. For every key that contains a space, the two navigations
  through a \<^verbatim>\<open>Ref\<close> raise the \<^verbatim>\<open>KeyError\<close> of the key guard; the two assignments raise it
  when the assigned value is not a \<^verbatim>\<open>Data\<close> instance, and raise the error of invalid
  assignments when it is, because that test comes first. In every case the heap is left as
  it was. Integer keys and strings without a space pass the guard.
\<close>

theorem space_key_rejected:
  assumes "CHR '' '' \<in> set s"
  shows "Ref_getattr r s = Inl (KeyError (KStr ''keys cannot contain spaces''))
       \<and> Ref_getitem r (VStr s) = Inl (KeyError (KStr ''keys cannot contain spaces''))
       \<and> (\<not> is_Data v \<longrightarrow>
            Ref_setattr r s v h = (Inl (KeyError (KStr ''keys cannot contain spaces'')), h)
          \<and> Ref_setitem r (VStr s) v h = (Inl (KeyError (KStr ''keys cannot contain spaces'')), h))
       \<and> (is_Data v \<longrightarrow>
            Ref_setattr r s v h = (Inl (ValueError ''Data instances cannot be used in assignments.''), h)
          \<and> Ref_setitem r (VStr s) v h = (Inl (ValueError ''Data instances cannot be used in assignments.''), h))
       \<and> guard_key (VInt i) = Inr ()
       \<and> (CHR '' '' \<notin> set t \<longrightarrow> guard_key (VStr t) = Inr ())"
  using assms
  by (simp add: Ref_getattr_def Ref_getitem_def Ref_setattr_def Ref_setitem_def set_op_guard_fails)

theorem space_key_rejected_witness:
  "CHR '' '' \<in> set ''a b''
   \<and> Ref_getattr \<lparr>PAGE = 0, KEY = ''c''\<rparr> ''a b'' = Inl (KeyError (KStr ''keys cannot contain spaces''))
   \<and> Ref_getitem \<lparr>PAGE = 0, KEY = ''c''\<rparr> (VStr ''a b'') = Inl (KeyError (KStr ''keys cannot contain spaces''))
   \<and> \<not> is_Data (VInt 1)
   \<and> Ref_setattr \<lparr>PAGE = 0, KEY = ''c''\<rparr> ''a b'' (VInt 1) (\<lambda>p::nat. \<lparr>url = ''/demo'', changes = []\<rparr>) =
       (Inl (KeyError (KStr ''keys cannot contain spaces'')), (\<lambda>p::nat. \<lparr>url = ''/demo'', changes = []\<rparr>))
   \<and> Ref_setitem \<lparr>PAGE = 0, KEY = ''c''\<rparr> (VStr ''a b'') (VInt 1) (\<lambda>p::nat. \<lparr>url = ''/demo'', changes = []\<rparr>) =
       (Inl (KeyError (KStr ''keys cannot contain spaces'')), (\<lambda>p::nat. \<lparr>url = ''/demo'', changes = []\<rparr>))
   \<and> guard_key (VInt 7) = Inr ()
   \<and> CHR '' '' \<notin> set ''field''
   \<and> guard_key (VStr ''field'') = Inr ()"
proof -
  have a: "CHR '' '' \<in> set ''a b''" by simp
  show ?thesis
    using a space_key_rejected [OF a, of "\<lparr>PAGE = 0, KEY = ''c''\<rparr>" "VInt 1"
        "\<lambda>p::nat. \<lparr>url = ''/demo'', changes = []\<rparr>" 7 "''field''"]
    by simp
qed

text \<open>
  The claim C9 as stated fails: an assignment whose key contains a space and whose value is a
  \<^verbatim>\<open>Data\<close> instance raises the error of invalid assignments, not the error of invalid keys.
\<close>

theorem space_key_Data_counterexample:
  "CHR '' '' \<in> set ''a b''
   \<and> Ref_setattr \<lparr>PAGE = 0, KEY = ''c''\<rparr> ''a b'' (VData (VList [VStr ''x'']) 10 VNone)
        (\<lambda>p::nat. \<lparr>url = ''/demo'', changes = []\<rparr>) =
       (Inl (ValueError ''Data instances cannot be used in assignments.''),
        (\<lambda>p::nat. \<lparr>url = ''/demo'', changes = []\<rparr>))
   \<and> Ref_setitem \<lparr>PAGE = 0, KEY = ''c''\<rparr> (VStr ''a b'') (VData (VList [VStr ''x'']) 10 VNone)
        (\<lambda>p::nat. \<lparr>url = ''/demo'', changes = []\<rparr>) =
       (Inl (ValueError ''Data instances cannot be used in assignments.''),
        (\<lambda>p::nat. \<lparr>url = ''/demo'', changes = []\<rparr>))
   \<and> ValueError ''Data instances cannot be used in assignments.'' \<noteq> KeyError (KStr ''keys cannot contain spaces'')"
  by (simp add: Ref_setattr_def Ref_setitem_def)

section \<open>Data descriptors nested in an assigned value\<close>

text \<open>
  Claim C10. A \<^verbatim>\<open>Data\<close> descriptor that sits inside a list, a tuple or a dictionary
  assigned through a \<^verbatim>\<open>Ref\<close> is not rejected: with a key that passes the guard the
  assignment succeeds, and the value of the tracked Set operation holds the encoded form
  \<^verbatim>\<open>Data.dump()\<close> of the descriptor in its place, between the dumped forms of its
  neighbours. No buffers field is produced.
\<close>

theorem nested_Data_inlined:
  assumes "guard_key k = Inr ()" and "guard_key (VStr key) = Inr ()"
  shows "Ref_setitem r k (VList (xs @ [VData f n d] @ ys)) h =
           (Inr (), h(PAGE r := PageBase_track (h (PAGE r))
              (VDict [(KStr ''k'', VStr (KEY r @ key_sep @ py_str k)),
                      (KStr ''v'', VList (map dump xs @ [VDict (Data_dump f n d)] @ map dump ys))])))
       \<and> Ref_setattr r key (VList (xs @ [VData f n d] @ ys)) h =
           (Inr (), h(PAGE r := PageBase_track (h (PAGE r))
              (VDict [(KStr ''k'', VStr (KEY r @ key_sep @ key)),
                      (KStr ''v'', VList (map dump xs @ [VDict (Data_dump f n d)] @ map dump ys))])))
       \<and> Ref_setitem r k (VTuple (xs @ [VData f n d] @ ys)) h =
           (Inr (), h(PAGE r := PageBase_track (h (PAGE r))
              (VDict [(KStr ''k'', VStr (KEY r @ key_sep @ py_str k)),
                      (KStr ''v'', VList (map dump xs @ [VDict (Data_dump f n d)] @ map dump ys))])))
       \<and> Ref_setattr r key (VTuple (xs @ [VData f n d] @ ys)) h =
           (Inr (), h(PAGE r := PageBase_track (h (PAGE r))
              (VDict [(KStr ''k'', VStr (KEY r @ key_sep @ key)),
                      (KStr ''v'', VList (map dump xs @ [VDict (Data_dump f n d)] @ map dump ys))])))
       \<and> Ref_setitem r k (VDict (kvs @ [(dk, VData f n d)] @ kvs')) h =
           (Inr (), h(PAGE r := PageBase_track (h (PAGE r))
              (VDict [(KStr ''k'', VStr (KEY r @ key_sep @ py_str k)),
                      (KStr ''v'', VDict (map (\<lambda>(k, v). (k, dump v)) kvs @ [(dk, VDict (Data_dump f n d))]
                                          @ map (\<lambda>(k, v). (k, dump v)) kvs'))])))
       \<and> Ref_setattr r key (VDict (kvs @ [(dk, VData f n d)] @ kvs')) h =
           (Inr (), h(PAGE r := PageBase_track (h (PAGE r))
              (VDict [(KStr ''k'', VStr (KEY r @ key_sep @ key)),
                      (KStr ''v'', VDict (map (\<lambda>(k, v). (k, dump v)) kvs @ [(dk, VDict (Data_dump f n d))]
                                          @ map (\<lambda>(k, v). (k, dump v)) kvs'))])))"
  using assms by (simp add: Ref_setitem_plain Ref_setattr_plain)

theorem nested_Data_inlined_witness:
  "guard_key (VStr ''x'') = Inr ()
   \<and> Ref_setitem \<lparr>PAGE = 0, KEY = ''c''\<rparr> (VStr ''x'') (VList ([] @ [VData (VList [VStr ''a'']) 3 VNone] @ []))
        (\<lambda>p::nat. \<lparr>url = ''/demo'', changes = []\<rparr>) =
       (Inr (), (\<lambda>p::nat. \<lparr>url = ''/demo'', changes = []\<rparr>)(0 := \<lparr>url = ''/demo'', changes =
          [VDict [(KStr ''k'', VStr ''c x''),
                  (KStr ''v'', VList [VDict [(KStr ''f'', VDict [(KStr ''f'', VList [VStr ''a'']), (KStr ''n'', VInt 3)])]])]]\<rparr>))
   \<and> Ref_setattr \<lparr>PAGE = 0, KEY = ''c''\<rparr> ''x'' (VDict ([] @ [(KStr ''d'', VData (VList [VStr ''a'']) 3 VNone)] @ []))
        (\<lambda>p::nat. \<lparr>url = ''/demo'', changes = []\<rparr>) =
       (Inr (), (\<lambda>p::nat. \<lparr>url = ''/demo'', changes = []\<rparr>)(0 := \<lparr>url = ''/demo'', changes =
          [VDict [(KStr ''k'', VStr ''c x''),
                  (KStr ''v'', VDict [(KStr ''d'', VDict [(KStr ''f'', VDict [(KStr ''f'', VList [VStr ''a'']), (KStr ''n'', VInt 3)])])])]]\<rparr>))"
proof -
  have a: "guard_key (VStr ''x'') = Inr ()" by simp
  show ?thesis
    using a nested_Data_inlined [OF a a, of "\<lparr>PAGE = 0, KEY = ''c''\<rparr>" "[]" "VList [VStr ''a'']" 3 VNone "[]"
        "\<lambda>p::nat. \<lparr>url = ''/demo'', changes = []\<rparr>" "[]" "KStr ''d''" "[]"]
    by (simp add: PageBase_track_def key_sep_def Data_dump_def)
qed

section \<open>Diff extraction\<close>

lemma sequence_map_Inr:
  "sequence (map f xs) = Inr ys \<longleftrightarrow>
     length ys = length xs \<and> (\<forall>i<length xs. f (xs ! i) = Inr (ys ! i))"
proof (induction xs arbitrary: ys)
  case Nil
  then show ?case by auto
next
  case (Cons x xs)
  show ?case
  proof (cases "f x")
    case (Inl e)
    then show ?thesis by auto
  next
    case (Inr y)
    show ?thesis
    proof (cases "sequence (map f xs)")
      case (Inl e)
      have "\<not> (length ys = length (x # xs) \<and> (\<forall>i<length (x # xs). f ((x # xs) ! i) = Inr (ys ! i)))"
      proof
        assume a: "length ys = length (x # xs) \<and> (\<forall>i<length (x # xs). f ((x # xs) ! i) = Inr (ys ! i))"
        then obtain y' ys' where ys: "ys = y' # ys'" by (cases ys) auto
        from a ys have "length ys' = length xs \<and> (\<forall>i<length xs. f (xs ! i) = Inr (ys' ! i))"
          by fastforce
        with Cons.IH [of ys'] Inl show False by simp
      qed
      with Inl Inr show ?thesis by simp
    next
      case (Inr zs)
      note r = this
      show ?thesis
      proof
        assume "sequence (map f (x # xs)) = Inr ys"
        with \<open>f x = Inr y\<close> r have ys: "ys = y # zs" by simp
        from r Cons.IH [of zs] have "length zs = length xs \<and> (\<forall>i<length xs. f (xs ! i) = Inr (zs ! i))"
          by simp
        with ys \<open>f x = Inr y\<close> show "length ys = length (x # xs) \<and> (\<forall>i<length (x # xs). f ((x # xs) ! i) = Inr (ys ! i))"
          by (auto simp: nth_Cons split: nat.splits)
      next
        assume a: "length ys = length (x # xs) \<and> (\<forall>i<length (x # xs). f ((x # xs) ! i) = Inr (ys ! i))"
        then obtain y' ys' where ys: "ys = y' # ys'" by (cases ys) auto
        from a ys have t: "length ys' = length xs \<and> (\<forall>i<length xs. f (xs ! i) = Inr (ys' ! i))"
          by fastforce
        from a ys have "f x = Inr y'" by fastforce
        with \<open>f x = Inr y\<close> have "y' = y" by simp
        from t Cons.IH [of ys'] have "sequence (map f xs) = Inr ys'" by simp
        with \<open>f x = Inr y\<close> ys \<open>y' = y\<close> show "sequence (map f (x # xs)) = Inr ys" by simp
      qed
    qed
  qed
qed

lemma marshal_diff_Inr:
  assumes "marshal (VDict [(KStr ''d'', VList ops)]) = Inr j"
  shows "\<exists>js. j = JObj [(''d'', JArr js)] \<and> length js = length ops
          \<and> (\<forall>i<length ops. marshal (ops ! i) = Inr (js ! i))"
proof (cases "sequence (map marshal ops)")
  case (Inl e)
  with assms show ?thesis by simp
next
  case (Inr js)
  then have "length js = length ops \<and> (\<forall>i<length ops. marshal (ops ! i) = Inr (js ! i))"
    using sequence_map_Inr [of marshal ops js] by simp
  moreover from Inr assms have "j = JObj [(''d'', JArr js)]" by simp
  ultimately show ?thesis by blast
qed

text \<open>
  Claim C2, as the code has it. With an empty buffer \<^verbatim>\<open>_diff\<close> returns \<^verbatim>\<open>None\<close> and
  leaves the heap as it was, so that a repeated call returns \<^verbatim>\<open>None\<close> again. With a
  buffer that is not empty and whose \<^verbatim>\<open>{"d": operations}\<close> marshals, it returns exactly
  that document, an object whose only member \<^verbatim>\<open>d\<close> is the array of the marshaled
  operations, one for each operation of the buffer and in the order of the buffer, and the
  buffer of the page is empty afterwards. When marshaling raises, the exception propagates and
  the heap is left as it was. In every case the heap afterwards is either the heap before or
  the heap before with the whole buffer of the page cleared.
\<close>

theorem diff_all_or_nothing:
  "(changes (h p) = [] \<longrightarrow>
      PageBase_diff p h = (Inr None, h)
      \<and> PageBase_diff p (snd (PageBase_diff p h)) = (Inr None, h))
   \<and> (changes (h p) \<noteq> [] \<and> marshal (VDict [(KStr ''d'', VList (changes (h p)))]) = Inr j \<longrightarrow>
        PageBase_diff p h = (Inr (Some j), h(p := (h p)\<lparr>changes := []\<rparr>))
        \<and> (\<exists>js. j = JObj [(''d'', JArr js)] \<and> length js = length (changes (h p))
               \<and> (\<forall>i<length (changes (h p)). marshal (changes (h p) ! i) = Inr (js ! i))))
   \<and> (changes (h p) \<noteq> [] \<and> marshal (VDict [(KStr ''d'', VList (changes (h p)))]) = Inl e \<longrightarrow>
        PageBase_diff p h = (Inl e, h))
   \<and> (snd (PageBase_diff p h) = h \<or> snd (PageBase_diff p h) = h(p := (h p)\<lparr>changes := []\<rparr>))"
proof -
  have 1: "changes (h p) = [] \<longrightarrow>
      PageBase_diff p h = (Inr None, h) \<and> PageBase_diff p (snd (PageBase_diff p h)) = (Inr None, h)"
    by (simp add: PageBase_diff_def)
  have 2: "changes (h p) \<noteq> [] \<and> marshal (VDict [(KStr ''d'', VList (changes (h p)))]) = Inr j \<longrightarrow>
        PageBase_diff p h = (Inr (Some j), h(p := (h p)\<lparr>changes := []\<rparr>))
        \<and> (\<exists>js. j = JObj [(''d'', JArr js)] \<and> length js = length (changes (h p))
               \<and> (\<forall>i<length (changes (h p)). marshal (changes (h p) ! i) = Inr (js ! i)))"
  proof
    assume a: "changes (h p) \<noteq> [] \<and> marshal (VDict [(KStr ''d'', VList (changes (h p)))]) = Inr j"
    then have "PageBase_diff p h = (Inr (Some j), h(p := (h p)\<lparr>changes := []\<rparr>))"
      by (simp add: PageBase_diff_def)
    moreover from a have "\<exists>js. j = JObj [(''d'', JArr js)] \<and> length js = length (changes (h p))
               \<and> (\<forall>i<length (changes (h p)). marshal (changes (h p) ! i) = Inr (js ! i))"
      using marshal_diff_Inr by blast
    ultimately show "PageBase_diff p h = (Inr (Some j), h(p := (h p)\<lparr>changes := []\<rparr>))
        \<and> (\<exists>js. j = JObj [(''d'', JArr js)] \<and> length js = length (changes (h p))
               \<and> (\<forall>i<length (changes (h p)). marshal (changes (h p) ! i) = Inr (js ! i)))"
      by blast
  qed
  have 3: "changes (h p) \<noteq> [] \<and> marshal (VDict [(KStr ''d'', VList (changes (h p)))]) = Inl e \<longrightarrow>
        PageBase_diff p h = (Inl e, h)"
    by (simp add: PageBase_diff_def)
  have 4: "snd (PageBase_diff p h) = h \<or> snd (PageBase_diff p h) = h(p := (h p)\<lparr>changes := []\<rparr>)"
    by (cases "marshal (VDict [(KStr ''d'', VList (changes (h p)))])") (simp_all add: PageBase_diff_def)
  from 1 2 3 4 show ?thesis by blast
qed


theorem diff_all_or_nothing_witness:
  "changes ((\<lambda>p::nat. \<lparr>url = ''/demo'', changes = []\<rparr>) 0) = []
   \<and> PageBase_diff 0 (\<lambda>p::nat. \<lparr>url = ''/demo'', changes = []\<rparr>) = (Inr None, (\<lambda>p::nat. \<lparr>url = ''/demo'', changes = []\<rparr>))
   \<and> PageBase_diff 0 (snd (PageBase_diff 0 (\<lambda>p::nat. \<lparr>url = ''/demo'', changes = []\<rparr>))) =
       (Inr None, (\<lambda>p::nat. \<lparr>url = ''/demo'', changes = []\<rparr>))
   \<and> changes ((\<lambda>p::nat. \<lparr>url = ''/demo'', changes = [VDict [(KStr ''k'', VStr ''c field''), (KStr ''v'', VInt 5)]]\<rparr>) 0) \<noteq> []
   \<and> marshal (VDict [(KStr ''d'', VList [VDict [(KStr ''k'', VStr ''c field''), (KStr ''v'', VInt 5)]])]) =
       Inr (JObj [(''d'', JArr [JObj [(''k'', JStr ''c field''), (''v'', JInt 5)]])])
   \<and> PageBase_diff 0 (\<lambda>p::nat. \<lparr>url = ''/demo'', changes = [VDict [(KStr ''k'', VStr ''c field''), (KStr ''v'', VInt 5)]]\<rparr>) =
       (Inr (Some (JObj [(''d'', JArr [JObj [(''k'', JStr ''c field''), (''v'', JInt 5)]])])),
        (\<lambda>p::nat. \<lparr>url = ''/demo'', changes = [VDict [(KStr ''k'', VStr ''c field''), (KStr ''v'', VInt 5)]]\<rparr>)
          (0 := \<lparr>url = ''/demo'', changes = []\<rparr>))
   \<and> changes ((\<lambda>p::nat. \<lparr>url = ''/demo'', changes = [VDict [(KStr ''k'', VStr ''c x''), (KStr ''v'', VFloat NaN)]]\<rparr>) 0) \<noteq> []
   \<and> marshal (VDict [(KStr ''d'', VList [VDict [(KStr ''k'', VStr ''c x''), (KStr ''v'', VFloat NaN)]])]) =
       Inl (ValueError ''Out of range float values are not JSON compliant'')
   \<and> PageBase_diff 0 (\<lambda>p::nat. \<lparr>url = ''/demo'', changes = [VDict [(KStr ''k'', VStr ''c x''), (KStr ''v'', VFloat NaN)]]\<rparr>) =
       (Inl (ValueError ''Out of range float values are not JSON compliant''),
        (\<lambda>p::nat. \<lparr>url = ''/demo'', changes = [VDict [(KStr ''k'', VStr ''c x''), (KStr ''v'', VFloat NaN)]]\<rparr>))"
proof -
  have m1: "marshal (VDict [(KStr ''d'', VList [VDict [(KStr ''k'', VStr ''c field''), (KStr ''v'', VInt 5)]])]) =
       Inr (JObj [(''d'', JArr [JObj [(''k'', JStr ''c field''), (''v'', JInt 5)]])])"
    by simp
  have m2: "marshal (VDict [(KStr ''d'', VList [VDict [(KStr ''k'', VStr ''c x''), (KStr ''v'', VFloat NaN)]])]) =
       Inl (ValueError ''Out of range float values are not JSON compliant'')"
    by simp
  show ?thesis
    using m1 m2
      diff_all_or_nothing [of "\<lambda>p::nat. \<lparr>url = ''/demo'', changes = []\<rparr>" 0]
      diff_all_or_nothing [of "\<lambda>p::nat. \<lparr>url = ''/demo'', changes = [VDict [(KStr ''k'', VStr ''c field''), (KStr ''v'', VInt 5)]]\<rparr>" 0
         "JObj [(''d'', JArr [JObj [(''k'', JStr ''c field''), (''v'', JInt 5)]])]"]
      diff_all_or_nothing [of "\<lambda>p::nat. \<lparr>url = ''/demo'', changes = [VDict [(KStr ''k'', VStr ''c x''), (KStr ''v'', VFloat NaN)]]\<rparr>" 0
         _ "ValueError ''Out of range float values are not JSON compliant''"]
    by simp
qed

text \<open>
  The claim C2 as stated fails for a buffer that is not empty and does not marshal. The float
  \<^verbatim>\<open>nan\<close> is a primitive, assigning it through a \<^verbatim>\<open>Ref\<close> succeeds and leaves one
  operation in the buffer; \<^verbatim>\<open>_diff\<close> then raises the \<^verbatim>\<open>ValueError\<close> of
  \<^verbatim>\<open>allow_nan=False\<close> instead of returning a diff, and the buffer is not cleared.
\<close>

theorem diff_unserializable_counterexample:
  "is_primitive (VFloat NaN)
   \<and> fst (Ref_setattr \<lparr>PAGE = 0, KEY = ''c''\<rparr> ''x'' (VFloat NaN) (\<lambda>p::nat. \<lparr>url = ''/demo'', changes = []\<rparr>)) = Inr ()
   \<and> changes (snd (Ref_setattr \<lparr>PAGE = 0, KEY = ''c''\<rparr> ''x'' (VFloat NaN) (\<lambda>p::nat. \<lparr>url = ''/demo'', changes = []\<rparr>)) 0) =
       [VDict [(KStr ''k'', VStr ''c x''), (KStr ''v'', VFloat NaN)]]
   \<and> fst (PageBase_diff 0 (snd (Ref_setattr \<lparr>PAGE = 0, KEY = ''c''\<rparr> ''x'' (VFloat NaN) (\<lambda>p::nat. \<lparr>url = ''/demo'', changes = []\<rparr>)))) =
       Inl (ValueError ''Out of range float values are not JSON compliant'')
   \<and> changes (snd (PageBase_diff 0 (snd (Ref_setattr \<lparr>PAGE = 0, KEY = ''c''\<rparr> ''x'' (VFloat NaN)
        (\<lambda>p::nat. \<lparr>url = ''/demo'', changes = []\<rparr>)))) 0) =
       [VDict [(KStr ''k'', VStr ''c x''), (KStr ''v'', VFloat NaN)]]"
  by (simp add: Ref_setattr_def set_op_def PageBase_track_def key_sep_def PageBase_diff_def)

section \<open>Adding a card\<close>

lemma PageBase_add_error_keeps_heap:
  "fst (PageBase_add p key c h) = Inl e \<Longrightarrow> snd (PageBase_add p key c h) = h"
  by (auto simp: PageBase_add_def split: pyval.splits sum.splits prod.splits if_splits)

text \<open>
  Claim C7, as the code has it. \<^verbatim>\<open>add(key, card)\<close> fails with a \<^verbatim>\<open>ValueError\<close> whenever
  the key is \<^verbatim>\<open>None\<close>, whenever the key is any other value that is not a string, and
  whenever the key is a string and the card is neither a dictionary nor an object whose
  \<^verbatim>\<open>dump\<close> returns a dictionary. Whenever \<^verbatim>\<open>add\<close> fails, the heap, and so the buffer of the
  page, is left as it was. Nothing is said of the empty string, which is a string.
\<close>

theorem add_rejects_bad_key_or_card:
  "(key = VNone \<longrightarrow> PageBase_add p key c h = (Inl (ValueError ''card must have a key''), h))
   \<and> (key \<noteq> VNone \<and> \<not> is_str key \<longrightarrow> PageBase_add p key c h = (Inl (ValueError ''key must be str''), h))
   \<and> (is_str key \<and> \<not> is_dict c \<and> \<not> (can_dump c \<and> is_dict (dump c)) \<longrightarrow>
        PageBase_add p key c h = (Inl (ValueError ''card must be dict or implement .dump() -> dict''), h))
   \<and> (fst (PageBase_add p key c h) = Inl e \<longrightarrow> snd (PageBase_add p key c h) = h)"
proof -
  have 1: "key = VNone \<longrightarrow> PageBase_add p key c h = (Inl (ValueError ''card must have a key''), h)"
    by (simp add: PageBase_add_def)
  have 2: "key \<noteq> VNone \<and> \<not> is_str key \<longrightarrow> PageBase_add p key c h = (Inl (ValueError ''key must be str''), h)"
    by (cases key) (simp_all add: PageBase_add_def)
  have 3: "is_str key \<and> \<not> is_dict c \<and> \<not> (can_dump c \<and> is_dict (dump c)) \<longrightarrow>
        PageBase_add p key c h = (Inl (ValueError ''card must be dict or implement .dump() -> dict''), h)"
  proof
    assume a: "is_str key \<and> \<not> is_dict c \<and> \<not> (can_dump c \<and> is_dict (dump c))"
    then obtain ks where k: "key = VStr ks" by (cases key) simp_all
    from a have "\<not> is_dict (if is_dict c then c else if can_dump c then dump c else VNone)"
      by simp
    then show "PageBase_add p key c h = (Inl (ValueError ''card must be dict or implement .dump() -> dict''), h)"
      unfolding PageBase_add_def k
      by (cases "if is_dict c then c else if can_dump c then dump c else VNone") simp_all
  qed
  have 4: "fst (PageBase_add p key c h) = Inl e \<longrightarrow> snd (PageBase_add p key c h) = h"
    using PageBase_add_error_keeps_heap by blast
  from 1 2 3 4 show ?thesis by blast
qed

theorem add_rejects_bad_key_or_card_witness:
  "PageBase_add 0 VNone (VDict []) (\<lambda>p::nat. \<lparr>url = ''/demo'', changes = []\<rparr>) =
      (Inl (ValueError ''card must have a key''), (\<lambda>p::nat. \<lparr>url = ''/demo'', changes = []\<rparr>))
   \<and> VInt 3 \<noteq> VNone \<and> \<not> is_str (VInt 3)
   \<and> PageBase_add 0 (VInt 3) (VDict []) (\<lambda>p::nat. \<lparr>url = ''/demo'', changes = []\<rparr>) =
      (Inl (ValueError ''key must be str''), (\<lambda>p::nat. \<lparr>url = ''/demo'', changes = []\<rparr>))
   \<and> is_str (VStr ''c1'') \<and> \<not> is_dict (VList [VInt 1]) \<and> \<not> can_dump (VList [VInt 1])
   \<and> PageBase_add 0 (VStr ''c1'') (VList [VInt 1]) (\<lambda>p::nat. \<lparr>url = ''/demo'', changes = []\<rparr>) =
      (Inl (ValueError ''card must be dict or implement .dump() -> dict''), (\<lambda>p::nat. \<lparr>url = ''/demo'', changes = []\<rparr>))
   \<and> can_dump (VDumpable ''Widget'' (VInt 1)) \<and> \<not> is_dict (dump (VDumpable ''Widget'' (VInt 1)))
   \<and> PageBase_add 0 (VStr ''c1'') (VDumpable ''Widget'' (VInt 1)) (\<lambda>p::nat. \<lparr>url = ''/demo'', changes = []\<rparr>) =
      (Inl (ValueError ''card must be dict or implement .dump() -> dict''), (\<lambda>p::nat. \<lparr>url = ''/demo'', changes = []\<rparr>))
   \<and> fst (PageBase_add 0 (VStr ''c1'') (VDumpable ''Widget'' (VInt 1)) (\<lambda>p::nat. \<lparr>url = ''/demo'', changes = []\<rparr>)) =
      Inl (ValueError ''card must be dict or implement .dump() -> dict'')
   \<and> snd (PageBase_add 0 (VStr ''c1'') (VDumpable ''Widget'' (VInt 1)) (\<lambda>p::nat. \<lparr>url = ''/demo'', changes = []\<rparr>)) =
      (\<lambda>p::nat. \<lparr>url = ''/demo'', changes = []\<rparr>)"
  using
    add_rejects_bad_key_or_card [of VNone 0 "VDict []" "\<lambda>p::nat. \<lparr>url = ''/demo'', changes = []\<rparr>"]
    add_rejects_bad_key_or_card [of "VInt 3" 0 "VDict []" "\<lambda>p::nat. \<lparr>url = ''/demo'', changes = []\<rparr>"]
    add_rejects_bad_key_or_card [of "VStr ''c1''" 0 "VList [VInt 1]" "\<lambda>p::nat. \<lparr>url = ''/demo'', changes = []\<rparr>"]
    add_rejects_bad_key_or_card [of "VStr ''c1''" 0 "VDumpable ''Widget'' (VInt 1)" "\<lambda>p::nat. \<lparr>url = ''/demo'', changes = []\<rparr>"
       "ValueError ''card must be dict or implement .dump() -> dict''"]
  by simp

text \<open>
  The claim C7 as stated fails for the empty string: \<^verbatim>\<open>add\<close> accepts it as a key, returns
  a \<^verbatim>\<open>Ref\<close> rooted at it and tracks the Add-card operation.
\<close>

theorem add_empty_key_counterexample:
  "fst (PageBase_add 0 (VStr []) (VDict [(KStr ''title'', VStr ''t'')]) (\<lambda>p::nat. \<lparr>url = ''/demo'', changes = []\<rparr>)) =
      Inr \<lparr>PAGE = 0, KEY = []\<rparr>
   \<and> changes (snd (PageBase_add 0 (VStr []) (VDict [(KStr ''title'', VStr ''t'')]) (\<lambda>p::nat. \<lparr>url = ''/demo'', changes = []\<rparr>)) 0) =
      [VDict [(KStr ''k'', VStr []), (KStr ''d'', VDict [(KStr ''title'', VStr ''t'')])]]"
  by (simp add: PageBase_add_def PageBase_track_def dict_del_def dict_has_def)

section \<open>The order of the tracked operations\<close>

lemma PageBase_add_None:
  "PageBase_add p VNone c h = (Inl (ValueError ''card must have a key''), h)"
  by (simp add: PageBase_add_def)

lemma PageBase_add_not_str:
  "key \<noteq> VNone \<Longrightarrow> \<not> is_str key \<Longrightarrow> PageBase_add p key c h = (Inl (ValueError ''key must be str''), h)"
  by (cases key) (simp_all add: PageBase_add_def)

lemma PageBase_add_not_dict:
  assumes "\<not> is_dict (if is_dict c then c else if can_dump c then dump c else VNone)"
  shows "PageBase_add p (VStr ks) c h =
           (Inl (ValueError ''card must be dict or implement .dump() -> dict''), h)"
  using assms unfolding PageBase_add_def
  by (cases "if is_dict c then c else if can_dump c then dump c else VNone") simp_all

lemma PageBase_add_dict:
  assumes "(if is_dict c then c else if can_dump c then dump c else VNone) = VDict props"
    and "collect props [] [] = (data, bufs)"
  shows "PageBase_add p (VStr ks) c h =
           (case displace data props of
              Inl e \<Rightarrow> (Inl e, h)
            | Inr props' \<Rightarrow>
                (Inr \<lparr>PAGE = p, KEY = ks\<rparr>,
                 h(p := PageBase_track (h p)
                   (if length bufs > 0
                    then VDict [(KStr ''k'', VStr ks), (KStr ''d'', VDict props'), (KStr ''b'', VList bufs)]
                    else VDict [(KStr ''k'', VStr ks), (KStr ''d'', VDict props')]))))"
  using assms unfolding PageBase_add_def by simp

lemma PageBase_add_cases:
  "(\<exists>e. \<forall>g. PageBase_add p key c g = (Inl e, g))
   \<or> (\<exists>r opn. \<forall>g. PageBase_add p key c g = (Inr r, g(p := PageBase_track (g p) opn)))"
proof (cases "key = VNone")
  case True
  then show ?thesis using PageBase_add_None by blast
next
  case notNone: False
  show ?thesis
  proof (cases "is_str key")
    case False
    with notNone show ?thesis using PageBase_add_not_str by blast
  next
    case True
    then obtain ks where k: "key = VStr ks" by (cases key) simp_all
    let ?c = "if is_dict c then c else if can_dump c then dump c else VNone"
    show ?thesis
    proof (cases "is_dict ?c")
      case False
      then show ?thesis unfolding k using PageBase_add_not_dict by blast
    next
      case True
      then obtain props where props: "?c = VDict props" by (cases ?c) simp_all
      obtain data bufs where coll: "collect props [] [] = (data, bufs)"
        by (cases "collect props [] []")
      show ?thesis
      proof (cases "displace data props")
        case (Inl e)
        then have "\<forall>g. PageBase_add p key c g = (Inl e, g)"
          unfolding k by (simp add: PageBase_add_dict [OF props coll])
        then show ?thesis by blast
      next
        case (Inr props')
        then have "\<forall>g. PageBase_add p key c g =
            (Inr \<lparr>PAGE = p, KEY = ks\<rparr>,
             g(p := PageBase_track (g p)
                   (if length bufs > 0
                    then VDict [(KStr ''k'', VStr ks), (KStr ''d'', VDict props'), (KStr ''b'', VList bufs)]
                    else VDict [(KStr ''k'', VStr ks), (KStr ''d'', VDict props')])))"
          unfolding k by (simp add: PageBase_add_dict [OF props coll])
        then show ?thesis by blast
      qed
    qed
  qed
qed

lemma Ref_setattr_cases:
  "(\<exists>e. \<forall>g. Ref_setattr r key v g = (Inl e, g))
   \<or> (\<exists>opn. \<forall>g. Ref_setattr r key v g = (Inr (), g(PAGE r := PageBase_track (g (PAGE r)) opn)))"
  unfolding Ref_setattr_def
  by (cases "set_op r (VStr key) (dump v)") auto

lemma Ref_setitem_cases:
  "(\<exists>e. \<forall>g. Ref_setitem r key v g = (Inl e, g))
   \<or> (\<exists>opn. \<forall>g. Ref_setitem r key v g = (Inr (), g(PAGE r := PageBase_track (g (PAGE r)) opn)))"
  unfolding Ref_setitem_def
  by (cases "set_op r key (dump v)") auto

lemma mutate_cases:
  "(\<exists>e. \<forall>g. mutate m g = (Inl e, g))
   \<or> (\<exists>opn. \<forall>g. mutate m g = (Inr (), g(target m := PageBase_track (g (target m)) opn)))"
proof (cases m)
  case (Add p key c)
  from PageBase_add_cases [of p key c] show ?thesis
  proof
    assume "\<exists>e. \<forall>g. PageBase_add p key c g = (Inl e, g)"
    then obtain e where "\<forall>g. PageBase_add p key c g = (Inl e, g)" by blast
    then have "\<forall>g. mutate m g = (Inl e, g)" by (simp add: Add PageBase_setitem_def)
    then show ?thesis by blast
  next
    assume "\<exists>r opn. \<forall>g. PageBase_add p key c g = (Inr r, g(p := PageBase_track (g p) opn))"
    then obtain r opn where "\<forall>g. PageBase_add p key c g = (Inr r, g(p := PageBase_track (g p) opn))"
      by blast
    then have "\<forall>g. mutate m g = (Inr (), g(target m := PageBase_track (g (target m)) opn))"
      by (simp add: Add PageBase_setitem_def)
    then show ?thesis by blast
  qed
next
  case (SetAttr r key v)
  with Ref_setattr_cases [of r key v] show ?thesis by simp
next
  case (SetItem r key v)
  with Ref_setitem_cases [of r key v] show ?thesis by simp
next
  case (Delete p key)
  then show ?thesis by (auto simp: PageBase_delitem_def)
next
  case (Drop p)
  then show ?thesis by (auto simp: PageBase_drop_def)
qed

lemma mutate_success:
  assumes "mutate m h = (Inr u, h1)"
  shows "\<exists>opn. \<forall>g. mutate m g = (Inr (), g(target m := PageBase_track (g (target m)) opn))"
  using mutate_cases [of m] assms by auto

lemma run_tracks:
  assumes "run ms h = Inr h'" and "\<forall>m\<in>set ms. target m = p"
  shows "\<exists>ops. length ops = length ms
           \<and> (\<forall>i<length ms. \<forall>g. mutate (ms ! i) g = (Inr (), g(p := PageBase_track (g p) (ops ! i))))
           \<and> changes (h' p) = changes (h p) @ ops"
  using assms
proof (induction ms arbitrary: h)
  case Nil
  then show ?case by simp
next
  case (Cons m ms)
  obtain res h1 where mh: "mutate m h = (res, h1)" by (cases "mutate m h")
  with Cons.prems(1) obtain u where res: "res = Inr u" and rest: "run ms h1 = Inr h'"
    by (cases res) simp_all
  from Cons.prems(2) have tm: "target m = p" and tms: "\<forall>m\<in>set ms. target m = p" by simp_all
  from mh res mutate_success [of m h u h1] tm
  obtain opn where opn: "\<forall>g. mutate m g = (Inr (), g(p := PageBase_track (g p) opn))" by auto
  with mh have h1: "h1 = h(p := PageBase_track (h p) opn)" by simp
  from Cons.IH [OF rest tms] obtain ops where
    l: "length ops = length ms" and
    each: "\<forall>i<length ms. \<forall>g. mutate (ms ! i) g = (Inr (), g(p := PageBase_track (g p) (ops ! i)))" and
    ch: "changes (h' p) = changes (h1 p) @ ops"
    by blast
  have "length (opn # ops) = length (m # ms)" using l by simp
  moreover have "\<forall>i<length (m # ms). \<forall>g. mutate ((m # ms) ! i) g =
      (Inr (), g(p := PageBase_track (g p) ((opn # ops) ! i)))"
  proof (intro allI impI)
    fix i g assume "i < length (m # ms)"
    then show "mutate ((m # ms) ! i) g = (Inr (), g(p := PageBase_track (g p) ((opn # ops) ! i)))"
      using opn each by (cases i) simp_all
  qed
  moreover have "changes (h' p) = changes (h p) @ (opn # ops)"
    using ch h1 by (simp add: PageBase_track_def)
  ultimately show ?case by blast
qed

lemma PageBase_diff_Some:
  assumes "fst (PageBase_diff p h) = Inr (Some j)"
  shows "marshal (VDict [(KStr ''d'', VList (changes (h p)))]) = Inr j"
proof (cases "length (changes (h p)) = 0")
  case True
  with assms show ?thesis by (simp add: PageBase_diff_def)
next
  case False
  with assms show ?thesis
    unfolding PageBase_diff_def
    by (cases "marshal (VDict [(KStr ''d'', VList (changes (h p)))])") simp_all
qed

text \<open>
  Claim C4. Let a sequence of mutations of one page \<open>p\<close> (adding a card, the two assignments
  through a \<^verbatim>\<open>Ref\<close> of the page, deleting a card, dropping the page) run without an
  exception. Then there is a list of operations, one for each mutation and in the order of
  the mutations, such that each mutation on its own appends exactly its operation to the buffer
  of the page whatever the state, and the buffer after the run is the buffer before followed
  by that list: nothing is reordered, merged or dropped. If the buffer was empty before and
  the next \<^verbatim>\<open>_diff\<close> returns a diff, the diff is \<^verbatim>\<open>{"d": [...]}\<close> with one marshaled
  operation for each mutation, in the same order.
\<close>

theorem mutations_tracked_in_order:
  assumes "run ms h = Inr h'" and "\<forall>m\<in>set ms. target m = p"
  shows "\<exists>ops. length ops = length ms
           \<and> (\<forall>i<length ms. \<forall>g. mutate (ms ! i) g = (Inr (), g(p := PageBase_track (g p) (ops ! i))))
           \<and> changes (h' p) = changes (h p) @ ops
           \<and> (changes (h p) = [] \<longrightarrow>
                (\<forall>j. fst (PageBase_diff p h') = Inr (Some j) \<longrightarrow>
                   (\<exists>js. j = JObj [(''d'', JArr js)] \<and> length js = length ms
                        \<and> (\<forall>i<length ms. marshal (ops ! i) = Inr (js ! i)))))"
proof -
  from run_tracks [OF assms] obtain ops where
    l: "length ops = length ms" and
    each: "\<forall>i<length ms. \<forall>g. mutate (ms ! i) g = (Inr (), g(p := PageBase_track (g p) (ops ! i)))" and
    ch: "changes (h' p) = changes (h p) @ ops"
    by blast
  have "changes (h p) = [] \<longrightarrow>
          (\<forall>j. fst (PageBase_diff p h') = Inr (Some j) \<longrightarrow>
             (\<exists>js. j = JObj [(''d'', JArr js)] \<and> length js = length ms
                  \<and> (\<forall>i<length ms. marshal (ops ! i) = Inr (js ! i))))"
  proof (intro impI allI)
    fix j
    assume e: "changes (h p) = []" and d: "fst (PageBase_diff p h') = Inr (Some j)"
    from e ch have "changes (h' p) = ops" by simp
    with PageBase_diff_Some [OF d] have "marshal (VDict [(KStr ''d'', VList ops)]) = Inr j"
      by simp
    from marshal_diff_Inr [OF this] l
    show "\<exists>js. j = JObj [(''d'', JArr js)] \<and> length js = length ms
                  \<and> (\<forall>i<length ms. marshal (ops ! i) = Inr (js ! i))"
      by simp
  qed
  with l each ch show ?thesis by blast
qed

theorem mutations_tracked_in_order_witness:
  "run [Add 0 (VStr ''a'') (VDict [(KStr ''title'', VStr ''t'')]),
        SetAttr \<lparr>PAGE = 0, KEY = ''a''\<rparr> ''x'' (VInt 1),
        Delete 0 (VStr ''a'')] (\<lambda>p::nat. \<lparr>url = ''/demo'', changes = []\<rparr>) =
     Inr ((\<lambda>p::nat. \<lparr>url = ''/demo'', changes = []\<rparr>)(0 := \<lparr>url = ''/demo'', changes =
       [VDict [(KStr ''k'', VStr ''a''), (KStr ''d'', VDict [(KStr ''title'', VStr ''t'')])],
        VDict [(KStr ''k'', VStr ''a x''), (KStr ''v'', VInt 1)],
        VDict [(KStr ''k'', VStr ''a'')]]\<rparr>))
   \<and> list_all (\<lambda>m. target m = 0)
        [Add 0 (VStr ''a'') (VDict [(KStr ''title'', VStr ''t'')]),
         SetAttr \<lparr>PAGE = 0, KEY = ''a''\<rparr> ''x'' (VInt 1),
         Delete 0 (VStr ''a'')]
   \<and> fst (PageBase_diff 0 ((\<lambda>p::nat. \<lparr>url = ''/demo'', changes = []\<rparr>)(0 := \<lparr>url = ''/demo'', changes =
       [VDict [(KStr ''k'', VStr ''a''), (KStr ''d'', VDict [(KStr ''title'', VStr ''t'')])],
        VDict [(KStr ''k'', VStr ''a x''), (KStr ''v'', VInt 1)],
        VDict [(KStr ''k'', VStr ''a'')]]\<rparr>))) =
     Inr (Some (JObj [(''d'', JArr
       [JObj [(''k'', JStr ''a''), (''d'', JObj [(''title'', JStr ''t'')])],
        JObj [(''k'', JStr ''a x''), (''v'', JInt 1)],
        JObj [(''k'', JStr ''a'')]])]))
   \<and> (\<exists>ops. length ops = 3
         \<and> changes (((\<lambda>p::nat. \<lparr>url = ''/demo'', changes = []\<rparr>)(0 := \<lparr>url = ''/demo'', changes =
             [VDict [(KStr ''k'', VStr ''a''), (KStr ''d'', VDict [(KStr ''title'', VStr ''t'')])],
              VDict [(KStr ''k'', VStr ''a x''), (KStr ''v'', VInt 1)],
              VDict [(KStr ''k'', VStr ''a'')]]\<rparr>)) 0) = ops
         \<and> (\<exists>js. length js = 3 \<and> marshal (ops ! 0) = Inr (js ! 0) \<and> marshal (ops ! 1) = Inr (js ! 1)
                \<and> marshal (ops ! 2) = Inr (js ! 2)))"
proof -
  let ?ms = "[Add 0 (VStr ''a'') (VDict [(KStr ''title'', VStr ''t'')]),
        SetAttr \<lparr>PAGE = 0, KEY = ''a''\<rparr> ''x'' (VInt 1),
        Delete 0 (VStr ''a'')]"
  let ?h0 = "\<lambda>p::nat. \<lparr>url = ''/demo'', changes = []\<rparr>"
  let ?h3 = "?h0(0 := \<lparr>url = ''/demo'', changes =
       [VDict [(KStr ''k'', VStr ''a''), (KStr ''d'', VDict [(KStr ''title'', VStr ''t'')])],
        VDict [(KStr ''k'', VStr ''a x''), (KStr ''v'', VInt 1)],
        VDict [(KStr ''k'', VStr ''a'')]]\<rparr>)"
  let ?j = "JObj [(''d'', JArr
       [JObj [(''k'', JStr ''a''), (''d'', JObj [(''title'', JStr ''t'')])],
        JObj [(''k'', JStr ''a x''), (''v'', JInt 1)],
        JObj [(''k'', JStr ''a'')]])]"
  have r: "run ?ms ?h0 = Inr ?h3"
    by (simp add: PageBase_setitem_def PageBase_add_def PageBase_track_def Ref_setattr_def set_op_def
        key_sep_def PageBase_delitem_def)
  have t: "\<forall>m\<in>set ?ms. target m = 0" by simp
  have d: "fst (PageBase_diff 0 ?h3) = Inr (Some ?j)"
    by (simp add: PageBase_diff_def)
  from mutations_tracked_in_order [OF r t] obtain ops where
    l: "length ops = length ?ms" and
    ch: "changes (?h3 0) = changes (?h0 0) @ ops" and
    m: "changes (?h0 0) = [] \<longrightarrow>
                (\<forall>j. fst (PageBase_diff 0 ?h3) = Inr (Some j) \<longrightarrow>
                   (\<exists>js. j = JObj [(''d'', JArr js)] \<and> length js = length ?ms
                        \<and> (\<forall>i<length ?ms. marshal (ops ! i) = Inr (js ! i))))"
    by blast
  have e: "changes (?h0 0) = []" by simp
  from m e have "\<forall>j. fst (PageBase_diff 0 ?h3) = Inr (Some j) \<longrightarrow>
                   (\<exists>js. j = JObj [(''d'', JArr js)] \<and> length js = length ?ms
                        \<and> (\<forall>i<length ?ms. marshal (ops ! i) = Inr (js ! i)))"
    by (rule mp)
  then have "fst (PageBase_diff 0 ?h3) = Inr (Some ?j) \<longrightarrow>
                   (\<exists>js. ?j = JObj [(''d'', JArr js)] \<and> length js = length ?ms
                        \<and> (\<forall>i<length ?ms. marshal (ops ! i) = Inr (js ! i)))"
    by (rule spec)
  from this d have "\<exists>js. ?j = JObj [(''d'', JArr js)] \<and> length js = length ?ms
                        \<and> (\<forall>i<length ?ms. marshal (ops ! i) = Inr (js ! i))"
    by (rule mp)
  then obtain js where js: "length js = length ?ms" "\<forall>i<length ?ms. marshal (ops ! i) = Inr (js ! i)"
    by blast
  from js have j3: "length js = 3 \<and> marshal (ops ! 0) = Inr (js ! 0) \<and> marshal (ops ! 1) = Inr (js ! 1)
                \<and> marshal (ops ! 2) = Inr (js ! 2)"
    by simp
  from l have l3: "length ops = 3" by simp
  from ch have c3: "changes (?h3 0) = ops" by simp
  have la: "list_all (\<lambda>m. target m = 0) ?ms" by simp
  from j3 have ex: "\<exists>js. length js = 3 \<and> marshal (ops ! 0) = Inr (js ! 0) \<and> marshal (ops ! 1) = Inr (js ! 1)
                \<and> marshal (ops ! 2) = Inr (js ! 2)"
    by (rule exI)
  from l3 c3 ex have ex2: "\<exists>ops. length ops = 3 \<and> changes (?h3 0) = ops
      \<and> (\<exists>js. length js = 3 \<and> marshal (ops ! 0) = Inr (js ! 0) \<and> marshal (ops ! 1) = Inr (js ! 1)
                \<and> marshal (ops ! 2) = Inr (js ! 2))"
    by (intro exI [of _ ops] conjI)
  show ?thesis
    apply (rule conjI)
     apply (rule r)
    apply (rule conjI)
     apply (rule la)
    apply (rule conjI)
     apply (rule d)
    apply (rule ex2)
    done
qed

section \<open>The round trip through JSON\<close>

lemma sequence_map_inverse:
  assumes "\<forall>x\<in>set xs. \<exists>j. f x = Inr j \<and> g j = x"
  shows "\<exists>js. sequence (map f xs) = Inr js \<and> map g js = xs"
  using assms
proof (induction xs)
  case Nil
  then show ?case by simp
next
  case (Cons x xs)
  then obtain j where j: "f x = Inr j" "g j = x" by auto
  from Cons obtain js where js: "sequence (map f xs) = Inr js" "map g js = xs" by auto
  from j js have "sequence (map f (x # xs)) = Inr (j # js) \<and> map g (j # js) = x # xs" by simp
  then show ?case by (rule exI)
qed

lemma dict_set_fresh:
  "k \<notin> fst ` set d \<Longrightarrow> dict_set d k v = d @ [(k, v)]"
  by (induction d) auto

lemma foldl_dict_set_distinct:
  "distinct (map fst (acc @ kvs)) \<Longrightarrow>
   foldl (\<lambda>d (k, v). dict_set d k v) acc kvs = acc @ kvs"
proof (induction kvs arbitrary: acc)
  case Nil
  then show ?case by simp
next
  case (Cons kv kvs)
  obtain k v where kv: "kv = (k, v)" by (cases kv)
  from Cons.prems kv have fresh: "k \<notin> fst ` set acc" by auto
  from Cons.prems kv have "distinct (map fst ((acc @ [(k, v)]) @ kvs))" by simp
  from Cons.IH [OF this] fresh kv show ?case by (simp add: dict_set_fresh)
qed

lemma dict_of_distinct: "distinct (map fst kvs) \<Longrightarrow> dict_of kvs = kvs"
  using foldl_dict_set_distinct [of "[]" kvs] by (simp add: dict_of_def)

lemma round_trip:
  "plain_json x \<Longrightarrow> wf x \<Longrightarrow> \<exists>j. marshal x = Inr j \<and> unmarshal j = x"
proof (induction x)
  case (VFloat f)
  then show ?case by (cases f) simp_all
next
  case (VList xs)
  have "\<forall>x\<in>set xs. \<exists>j. marshal x = Inr j \<and> unmarshal j = x"
  proof
    fix x assume x: "x \<in> set xs"
    with VList.prems have "plain_json x" "wf x" by (simp_all add: list_all_iff)
    with VList.IH [OF x] show "\<exists>j. marshal x = Inr j \<and> unmarshal j = x" by blast
  qed
  from sequence_map_inverse [OF this] obtain js where
    "sequence (map marshal xs) = Inr js" "map unmarshal js = xs" by blast
  then show ?case by simp
next
  case (VDict kvs)
  let ?f = "\<lambda>(k, v). map_sum id (Pair (key_text k)) (marshal v)"
  let ?g = "\<lambda>(k, j). (KStr k, unmarshal j)"
  have "\<forall>kv\<in>set kvs. \<exists>kj. ?f kv = Inr kj \<and> ?g kj = kv"
  proof
    fix kv assume m: "kv \<in> set kvs"
    obtain k v where kv: "kv = (k, v)" by (cases kv)
    from m kv VDict.prems have p: "plain_json v" "wf v" and ks: "case k of KStr s \<Rightarrow> True | KInt i \<Rightarrow> False"
      by (auto simp: list_all_iff)
    from ks obtain s where s: "k = KStr s" by (cases k) simp_all
    from m kv have "v \<in> Basic_BNFs.snds kv" by simp
    from VDict.IH [OF m this] p obtain j where j: "marshal v = Inr j" "unmarshal j = v" by blast
    from kv s j have "?f kv = Inr (s, j) \<and> ?g (s, j) = kv" by simp
    then show "\<exists>kj. ?f kv = Inr kj \<and> ?g kj = kv" by blast
  qed
  from sequence_map_inverse [OF this] obtain kjs where
    kjs: "sequence (map ?f kvs) = Inr kjs" "map ?g kjs = kvs" by blast
  from VDict.prems have "distinct (map fst kvs)" by simp
  then have "dict_of kvs = kvs" by (rule dict_of_distinct)
  with kjs show ?case by simp
qed simp_all

text \<open>
  Claim C8, as the code has it. For every value \<open>x\<close> built from \<^verbatim>\<open>None\<close>, booleans,
  integers, finite floats, strings, lists and dictionaries with string keys (the keys of each
  dictionary distinct, as in every Python dictionary), \<^verbatim>\<open>marshal(x)\<close> succeeds and
  \<^verbatim>\<open>unmarshal(marshal(x))\<close> is \<open>x\<close>.
\<close>

theorem round_trip_plain:
  assumes "plain_json x" and "wf x"
  shows "\<exists>j. marshal x = Inr j \<and> unmarshal j = x"
  using assms by (rule round_trip)

theorem round_trip_plain_witness:
  "plain_json (VDict [(KStr ''d'', VList [VDict [(KStr ''k'', VStr ''c field''), (KStr ''v'', VInt 5)],
                                          VNone, VBool True, VFloat (Finite (3 / 2))])])
   \<and> wf (VDict [(KStr ''d'', VList [VDict [(KStr ''k'', VStr ''c field''), (KStr ''v'', VInt 5)],
                                    VNone, VBool True, VFloat (Finite (3 / 2))])])
   \<and> (\<exists>j. marshal (VDict [(KStr ''d'', VList [VDict [(KStr ''k'', VStr ''c field''), (KStr ''v'', VInt 5)],
                                          VNone, VBool True, VFloat (Finite (3 / 2))])]) = Inr j
         \<and> unmarshal j =
             VDict [(KStr ''d'', VList [VDict [(KStr ''k'', VStr ''c field''), (KStr ''v'', VInt 5)],
                                        VNone, VBool True, VFloat (Finite (3 / 2))])])
   \<and> unmarshal (JObj [(''d'', JArr [JObj [(''k'', JStr ''c field''), (''v'', JInt 5)],
                                     JNull, JBool True, JReal (3 / 2)])]) =
       VDict [(KStr ''d'', VList [VDict [(KStr ''k'', VStr ''c field''), (KStr ''v'', VInt 5)],
                                  VNone, VBool True, VFloat (Finite (3 / 2))])]"
proof -
  let ?x = "VDict [(KStr ''d'', VList [VDict [(KStr ''k'', VStr ''c field''), (KStr ''v'', VInt 5)],
                                          VNone, VBool True, VFloat (Finite (3 / 2))])]"
  have p: "plain_json ?x" by simp
  have w: "wf ?x" by simp
  have u: "unmarshal (JObj [(''d'', JArr [JObj [(''k'', JStr ''c field''), (''v'', JInt 5)],
                                     JNull, JBool True, JReal (3 / 2)])]) = ?x"
    by (simp add: dict_of_def)
  from round_trip_plain [OF p w] have e: "\<exists>j. marshal ?x = Inr j \<and> unmarshal j = ?x" .
  show ?thesis
    apply (rule conjI)
     apply (rule p)
    apply (rule conjI)
     apply (rule w)
    apply (rule conjI)
     apply (rule e)
    apply (rule u)
    done
qed

text \<open>
  The claim C8 as stated fails for a tuple of primitives, which is a container of primitives:
  the encoder writes it as an array and the decoder reads an array as a list, and a list is
  not equal to a tuple. It fails as well for a dictionary with an integer key, which comes
  back with the key as a string.
\<close>

theorem round_trip_tuple_counterexample:
  "are_primitives (VTuple [VInt 1, VInt 2])
   \<and> marshal (VTuple [VInt 1, VInt 2]) = Inr (JArr [JInt 1, JInt 2])
   \<and> unmarshal (JArr [JInt 1, JInt 2]) = VList [VInt 1, VInt 2]
   \<and> VList [VInt 1, VInt 2] \<noteq> VTuple [VInt 1, VInt 2]
   \<and> marshal (VDict [(KInt 1, VStr ''a'')]) = Inr (JObj [(''1'', JStr ''a'')])
   \<and> unmarshal (JObj [(''1'', JStr ''a'')]) = VDict [(KStr ''1'', VStr ''a'')]
   \<and> VDict [(KStr ''1'', VStr ''a'')] \<noteq> VDict [(KInt 1, VStr ''a'')]"
  by (simp add: dict_of_def str_int_def str_nat.simps digit_char_def)

section \<open>Data-valued properties of an added card\<close>

text \<open>
  What the two loops of \<^verbatim>\<open>add\<close> compute: the first collects the keys of the properties
  that hold a \<^verbatim>\<open>Data\<close>, each with its index, and the encoded descriptors in the same
  order; the second removes each collected key and inserts its marker.
\<close>

lemma collect_eq:
  "collect kvs data bufs =
     (data @ map (\<lambda>ik. (snd ik, fst ik))
               (enumerate (length bufs) (map fst (filter (\<lambda>kv. is_Data (snd kv)) kvs))),
      bufs @ map (\<lambda>kv. dump (snd kv)) (filter (\<lambda>kv. is_Data (snd kv)) kvs))"
proof (induction kvs data bufs rule: collect.induct)
  case (1 data bufs)
  show ?case by simp
next
  case (2 k v kvs data bufs)
  show ?case
  proof (cases "is_Data v")
    case True
    with 2 show ?thesis by simp
  next
    case False
    with 2 show ?thesis by simp
  qed
qed

lemma dict_del_present:
  "k \<in> fst ` set props \<Longrightarrow> dict_del props k = Inr (filter (\<lambda>kv. fst kv \<noteq> k) props)"
  by (simp add: dict_del_def dict_has_def)

lemma displace_eq:
  assumes "distinct (map fst ds)"
    and "fst ` set ds \<subseteq> fst ` set props"
    and "distinct (map (\<lambda>d. ''~'' @ key_text (fst d)) ds)"
    and "\<forall>d\<in>set ds. KStr (''~'' @ key_text (fst d)) \<notin> fst ` set props"
  shows "displace ds props =
     Inr (filter (\<lambda>kv. fst kv \<notin> fst ` set ds) props
          @ map (\<lambda>d. (KStr (''~'' @ key_text (fst d)), VInt (int (snd d)))) ds)"
  using assms
proof (induction ds arbitrary: props)
  case Nil
  then show ?case by simp
next
  case (Cons d ds)
  obtain k i where d: "d = (k, i)" by (cases d)
  let ?m = "KStr (''~'' @ key_text k)"
  let ?props1 = "filter (\<lambda>kv. fst kv \<noteq> k) props @ [(?m, VInt (int i))]"
  from Cons.prems(2) d have kin: "k \<in> fst ` set props" by simp
  from Cons.prems(4) d have mfresh: "?m \<notin> fst ` set props" by simp
  then have mfresh': "?m \<notin> fst ` set (filter (\<lambda>kv. fst kv \<noteq> k) props)" by auto
  have step: "displace (d # ds) props = displace ds ?props1"
    using kin mfresh' by (simp add: d dict_del_present dict_set_fresh)
  have p1: "distinct (map fst ds)" using Cons.prems(1) by simp
  have knot: "k \<notin> fst ` set ds" using Cons.prems(1) d by force
  have p2: "fst ` set ds \<subseteq> fst ` set ?props1"
  proof
    fix k' assume a: "k' \<in> fst ` set ds"
    with Cons.prems(2) have "k' \<in> fst ` set props" by auto
    moreover from a knot have "k' \<noteq> k" by auto
    ultimately show "k' \<in> fst ` set ?props1" by force
  qed
  have p3: "distinct (map (\<lambda>d. ''~'' @ key_text (fst d)) ds)" using Cons.prems(3) by simp
  have p4: "\<forall>d'\<in>set ds. KStr (''~'' @ key_text (fst d')) \<notin> fst ` set ?props1"
  proof
    fix d' assume a: "d' \<in> set ds"
    with Cons.prems(4) have "KStr (''~'' @ key_text (fst d')) \<notin> fst ` set props" by simp
    then have "KStr (''~'' @ key_text (fst d')) \<notin> fst ` set (filter (\<lambda>kv. fst kv \<noteq> k) props)" by auto
    moreover from Cons.prems(3) d a have "''~'' @ key_text (fst d') \<noteq> ''~'' @ key_text k"
      by (auto simp: image_iff)
    ultimately show "KStr (''~'' @ key_text (fst d')) \<notin> fst ` set ?props1" by auto
  qed
  have mnot: "?m \<notin> fst ` set ds"
    using mfresh Cons.prems(2) by auto
  have "displace ds ?props1 =
     Inr (filter (\<lambda>kv. fst kv \<notin> fst ` set ds) ?props1
          @ map (\<lambda>d. (KStr (''~'' @ key_text (fst d)), VInt (int (snd d)))) ds)"
    by (rule Cons.IH [OF p1 p2 p3 p4])
  also have "filter (\<lambda>kv. fst kv \<notin> fst ` set ds) ?props1 =
      filter (\<lambda>kv. fst kv \<notin> fst ` set (d # ds)) props @ [(?m, VInt (int i))]"
    using mnot by (auto simp: d intro: filter_cong)
  finally show ?case using step by (simp add: d)
qed

lemma map_of_snd_enumerate: "map (\<lambda>ik. g (snd ik)) (enumerate n xs) = map g xs"
  by (induction xs arbitrary: n) simp_all

lemma Data_keys:
  assumes "distinct (map fst props)" and "kv \<in> set props"
  shows "fst kv \<in> fst ` set (filter (\<lambda>kv. is_Data (snd kv)) props) \<longleftrightarrow> is_Data (snd kv)"
proof
  assume "fst kv \<in> fst ` set (filter (\<lambda>kv. is_Data (snd kv)) props)"
  then obtain kv' where kv': "kv' \<in> set props" "is_Data (snd kv')" "fst kv' = fst kv" by auto
  from assms kv' have "snd kv' = snd kv"
    using eq_key_imp_eq_value [of props "fst kv" "snd kv'" "snd kv"] by (cases kv; cases kv') auto
  with kv' show "is_Data (snd kv)" by simp
next
  assume "is_Data (snd kv)"
  with assms(2) show "fst kv \<in> fst ` set (filter (\<lambda>kv. is_Data (snd kv)) props)" by auto
qed

text \<open>
  When the markers \<^verbatim>\<open>~k\<close> of the \<^verbatim>\<open>Data\<close>-valued properties are pairwise distinct and
  none of them is a property name of the card, \<^verbatim>\<open>add\<close> does what is expected of it: the
  tracked properties are the other properties of the card followed by one marker for each
  \<^verbatim>\<open>Data\<close>-valued property, whose value is the index of the encoded descriptor in the
  buffers; the operation carries the buffers exactly when there are any, and the returned
  \<^verbatim>\<open>Ref\<close> is rooted at the key.
\<close>

lemma add_displaces_Data:
  assumes card: "(if is_dict c then c else if can_dump c then dump c else VNone) = VDict props"
    and keys: "distinct (map fst props)"
    and markers: "distinct (map (\<lambda>kv. ''~'' @ key_text (fst kv)) (filter (\<lambda>kv. is_Data (snd kv)) props))"
    and fresh: "\<forall>kv\<in>set props. is_Data (snd kv) \<longrightarrow> KStr (''~'' @ key_text (fst kv)) \<notin> fst ` set props"
  shows "PageBase_add p (VStr ks) c h =
     (Inr \<lparr>PAGE = p, KEY = ks\<rparr>,
      h(p := PageBase_track (h p)
        (if filter (\<lambda>kv. is_Data (snd kv)) props \<noteq> []
         then VDict [(KStr ''k'', VStr ks),
                (KStr ''d'', VDict (filter (\<lambda>kv. \<not> is_Data (snd kv)) props
                   @ map (\<lambda>ik. (KStr (''~'' @ key_text (snd ik)), VInt (int (fst ik))))
                       (enumerate 0 (map fst (filter (\<lambda>kv. is_Data (snd kv)) props))))),
                (KStr ''b'', VList (map (\<lambda>kv. dump (snd kv)) (filter (\<lambda>kv. is_Data (snd kv)) props)))]
         else VDict [(KStr ''k'', VStr ks),
                (KStr ''d'', VDict (filter (\<lambda>kv. \<not> is_Data (snd kv)) props
                   @ map (\<lambda>ik. (KStr (''~'' @ key_text (snd ik)), VInt (int (fst ik))))
                       (enumerate 0 (map fst (filter (\<lambda>kv. is_Data (snd kv)) props)))))])))"
proof -
  let ?dat = "filter (\<lambda>kv. is_Data (snd kv)) props"
  let ?ds = "map (\<lambda>ik. (snd ik, fst ik)) (enumerate 0 (map fst ?dat))"
  let ?bufs = "map (\<lambda>kv. dump (snd kv)) ?dat"
  have coll: "collect props [] [] = (?ds, ?bufs)"
    by (simp add: collect_eq)
  have fst_ds: "map fst ?ds = map fst ?dat"
    by (simp add: comp_def)
  then have set_ds: "fst ` set ?ds = fst ` set ?dat"
    by (metis list.set_map)
  have d1: "distinct (map fst ?ds)"
    using keys fst_ds by (simp add: distinct_map_filter)
  have d2: "fst ` set ?ds \<subseteq> fst ` set props"
    using set_ds by auto
  have "map (\<lambda>d. ''~'' @ key_text (fst d)) ?ds =
        map (\<lambda>ik. ''~'' @ key_text (snd ik)) (enumerate 0 (map fst ?dat))"
    by (simp add: comp_def)
  also have "\<dots> = map (\<lambda>k. ''~'' @ key_text k) (map fst ?dat)"
    by (rule map_of_snd_enumerate)
  also have "\<dots> = map (\<lambda>kv. ''~'' @ key_text (fst kv)) ?dat"
    by (simp add: comp_def)
  finally have d3: "distinct (map (\<lambda>d. ''~'' @ key_text (fst d)) ?ds)"
    using markers by simp
  have d4: "\<forall>d\<in>set ?ds. KStr (''~'' @ key_text (fst d)) \<notin> fst ` set props"
  proof
    fix d assume "d \<in> set ?ds"
    then have "fst d \<in> fst ` set ?ds" by (rule imageI)
    with set_ds obtain kv where "kv \<in> set props" "is_Data (snd kv)" "fst kv = fst d" by auto
    with fresh show "KStr (''~'' @ key_text (fst d)) \<notin> fst ` set props" by metis
  qed
  have f: "filter (\<lambda>kv. fst kv \<notin> fst ` set ?ds) props = filter (\<lambda>kv. \<not> is_Data (snd kv)) props"
    using Data_keys [OF keys] set_ds by (intro filter_cong) auto
  have m: "map (\<lambda>d. (KStr (''~'' @ key_text (fst d)), VInt (int (snd d)))) ?ds =
           map (\<lambda>ik. (KStr (''~'' @ key_text (snd ik)), VInt (int (fst ik)))) (enumerate 0 (map fst ?dat))"
    by (simp add: comp_def)
  have disp: "displace ?ds props =
     Inr (filter (\<lambda>kv. \<not> is_Data (snd kv)) props
          @ map (\<lambda>ik. (KStr (''~'' @ key_text (snd ik)), VInt (int (fst ik)))) (enumerate 0 (map fst ?dat)))"
    using displace_eq [OF d1 d2 d3 d4] f m by simp
  show ?thesis
    by (simp add: PageBase_add_dict [OF card coll] disp)
qed

text \<open>
  Claim C3 at a card where it fails. The card has a \<^verbatim>\<open>Data\<close>-valued property
  \<^verbatim>\<open>x\<close> and a \<^verbatim>\<open>Data\<close>-valued property \<^verbatim>\<open>~x\<close>. The second loop of \<^verbatim>\<open>add\<close> first
  replaces \<^verbatim>\<open>x\<close> by the marker \<^verbatim>\<open>~x\<close> with index 0, overwriting the second
  descriptor, then deletes \<^verbatim>\<open>~x\<close>, which by now is that marker, and inserts
  \<^verbatim>\<open>~~x\<close> with index 1. The tracked properties are \<^verbatim>\<open>{"~~x": 1}\<close>: no property named
  \<^verbatim>\<open>~x\<close> holds the index 0, while the buffers hold both encoded descriptors.
\<close>

theorem add_marker_collision:
  "fst (PageBase_add 0 (VStr ''c1'')
         (VDict [(KStr ''x'', VData (VList [VStr ''a'']) 3 VNone),
                 (KStr ''~x'', VData (VList [VStr ''b'']) 0 VNone)])
         (\<lambda>p::nat. \<lparr>url = ''/demo'', changes = []\<rparr>)) = Inr \<lparr>PAGE = 0, KEY = ''c1''\<rparr>
   \<and> changes (snd (PageBase_add 0 (VStr ''c1'')
         (VDict [(KStr ''x'', VData (VList [VStr ''a'']) 3 VNone),
                 (KStr ''~x'', VData (VList [VStr ''b'']) 0 VNone)])
         (\<lambda>p::nat. \<lparr>url = ''/demo'', changes = []\<rparr>)) 0) =
       [VDict [(KStr ''k'', VStr ''c1''),
               (KStr ''d'', VDict [(KStr ''~~x'', VInt 1)]),
               (KStr ''b'', VList [VDict [(KStr ''f'', VDict [(KStr ''f'', VList [VStr ''a'']), (KStr ''n'', VInt 3)])],
                                   VDict [(KStr ''m'', VDict [(KStr ''f'', VList [VStr ''b''])])]])]]"
  by (simp add: PageBase_add_def PageBase_track_def dict_del_def dict_has_def Data_dump_def)

text \<open>
  The card \<^verbatim>\<open>{x: Data(["a","b"], size=3)}\<close> added under the key \<^verbatim>\<open>c1\<close>: the tracked
  properties hold \<^verbatim>\<open>"~x": 0\<close> and the buffers hold the one fixed-buffer encoding.
\<close>

lemma add_displaces_Data_example:
  "fst (PageBase_add 0 (VStr ''c1'')
         (VDict [(KStr ''x'', VData (VList [VStr ''a'', VStr ''b'']) 3 VNone)])
         (\<lambda>p::nat. \<lparr>url = ''/demo'', changes = []\<rparr>)) = Inr \<lparr>PAGE = 0, KEY = ''c1''\<rparr>
   \<and> changes (snd (PageBase_add 0 (VStr ''c1'')
         (VDict [(KStr ''x'', VData (VList [VStr ''a'', VStr ''b'']) 3 VNone)])
         (\<lambda>p::nat. \<lparr>url = ''/demo'', changes = []\<rparr>)) 0) =
       [VDict [(KStr ''k'', VStr ''c1''),
               (KStr ''d'', VDict [(KStr ''~x'', VInt 0)]),
               (KStr ''b'', VList [VDict [(KStr ''f'', VDict [(KStr ''f'', VList [VStr ''a'', VStr ''b'']), (KStr ''n'', VInt 3)])]])]]"
proof -
  let ?props = "[(KStr ''x'', VData (VList [VStr ''a'', VStr ''b'']) 3 VNone)]"
  have c: "(if is_dict (VDict ?props) then VDict ?props
            else if can_dump (VDict ?props) then dump (VDict ?props) else VNone) = VDict ?props"
    by simp
  have k: "distinct (map fst ?props)" by simp
  have m: "distinct (map (\<lambda>kv. ''~'' @ key_text (fst kv)) (filter (\<lambda>kv. is_Data (snd kv)) ?props))"
    by simp
  have f: "\<forall>kv\<in>set ?props. is_Data (snd kv) \<longrightarrow> KStr (''~'' @ key_text (fst kv)) \<notin> fst ` set ?props"
    by simp
  show ?thesis
    using add_displaces_Data [OF c k m f, of 0 "''c1''" "\<lambda>p::nat. \<lparr>url = ''/demo'', changes = []\<rparr>"]
    by (simp add: PageBase_track_def Data_dump_def)
qed


end
